theory Spec2Isabelle
  imports Complex_Main "HOL-Library.Multiset"
begin

section \<open>Bundle routing through waypoints (gdsfactory/routing/get\_bundle\_from\_waypoints.py)\<close>

text \<open>
  Coordinates are Python floats in the source; they are modelled as real numbers, so
  every statement below is about the exact arithmetic the floats approximate.
  A point is a pair, a segment a pair of points, a route a list of points.
\<close>

type_synonym point = "real \<times> real"
type_synonym segment = "point \<times> point"

text \<open>
  The source raises \<open>ValueError\<close> at four places, told apart by their messages only.
  Each place gets a constructor of its own, named as the specification names it:
  \<^item> \<open>PortCountMismatchError\<close>: "Number of start ports should match number of end ports";
  \<^item> \<open>InvalidPathError\<close>: "Segment should be manhattan";
  \<^item> \<open>AmbiguousSeparationError\<close>: "Expected offset = 0 at either start or end of route";
  \<^item> \<open>NonManhattanIntersectionError\<close>: "s1 / s2 should be h/v or v/h".
  The remaining constructors are the exceptions Python itself raises: an index out of
  range, a missing dictionary key, arithmetic on \<open>None\<close>, and unpacking a list of the
  wrong length.
\<close>

datatype error =
    PortCountMismatchError
  | InvalidPathError
  | AmbiguousSeparationError
  | NonManhattanIntersectionError
  | IndexError
  | KeyError
  | TypeError
  | UnpackError

text \<open>
  Modelled from the spec: the class \<open>Port\<close> (gdsfactory/port.py) is not part of the
  sources at hand. A port has a position, an orientation and a width; \<open>midpoint\<close> and
  \<open>position\<close> name the same field, as do \<open>angle\<close> and \<open>orientation\<close>, and \<open>x\<close>, \<open>y\<close>
  are the two coordinates of the position. An orientation is a number of degrees that
  need not be whole (Python accepts an \<open>int\<close> or a \<open>float\<close> there), hence a real.
\<close>

record port =
  midpoint :: point
  orientation :: real
  width :: real

definition port_x :: "port \<Rightarrow> real" where
  "port_x p = fst (midpoint p)"

definition port_y :: "port \<Rightarrow> real" where
  "port_y p = snd (midpoint p)"

subsection \<open>Sequencing of fallible steps\<close>

definition bindE :: "error + 'a \<Rightarrow> ('a \<Rightarrow> error + 'b) \<Rightarrow> error + 'b" where
  "bindE m f = (case m of Inl e \<Rightarrow> Inl e | Inr v \<Rightarrow> f v)"

text \<open>Python's \<open>xs[i]\<close> for an index \<open>i \<ge> 0\<close>.\<close>

definition py_get :: "'a list \<Rightarrow> nat \<Rightarrow> error + 'a" where
  "py_get xs i = (if i < length xs then Inr (xs ! i) else Inl IndexError)"

text \<open>Python's \<open>xs[-k]\<close> for \<open>k \<ge> 1\<close>: the \<open>k\<close>-th element from the end.\<close>

definition py_get_neg :: "'a list \<Rightarrow> nat \<Rightarrow> error + 'a" where
  "py_get_neg xs k =
     (if 1 \<le> k \<and> k \<le> length xs then Inr (xs ! (length xs - k)) else Inl IndexError)"

subsection \<open>Segment classification\<close>

definition tol :: real where
  "tol = 1 / 100000"

definition is_vertical :: "segment \<Rightarrow> bool" where
  "is_vertical s = (case s of (p0, p1) \<Rightarrow> \<bar>fst p0 - fst p1\<bar> < tol)"

definition is_horizontal :: "segment \<Rightarrow> bool" where
  "is_horizontal s = (case s of (p0, p1) \<Rightarrow> \<bar>snd p0 - snd p1\<bar> < tol)"

text \<open>\<open>_segment_sign\<close> tests for vertical first and falls off its end, returning
  \<open>None\<close>, on a segment that is neither vertical nor horizontal.\<close>

definition segment_sign :: "segment \<Rightarrow> real option" where
  "segment_sign s =
     (case s of (p0, p1) \<Rightarrow>
        if is_vertical s then Some (sgn (snd p1 - snd p0))
        else if is_horizontal s then Some (sgn (fst p1 - fst p0))
        else None)"

subsection \<open>Start offsets\<close>

text \<open>
  Modelled from the spec: \<open>get_list_ports_angle\<close> (gdsfactory/routing/utils.py) is not
  part of the sources at hand. All ports of a bundle share one orientation, and that
  orientation is the bundle's; it is read off the first port. It is called on non-empty
  lists only.
\<close>

definition get_list_ports_angle :: "port list \<Rightarrow> real" where
  "get_list_ports_angle list_ports = orientation (hd list_ports)"

definition get_ports_x_or_y_distances :: "port list \<Rightarrow> point \<Rightarrow> real list" where
  "get_ports_x_or_y_distances list_ports ref_point =
     (if list_ports = [] then []
      else
        let angle = get_list_ports_angle list_ports;
            x0 = fst ref_point;
            y0 = snd ref_point
        in if angle \<in> {0, 180} then map (\<lambda>p. port_y p - y0) list_ports
           else map (\<lambda>p. port_x p - x0) list_ports)"

subsection \<open>Endpoint snapping\<close>

text \<open>\<open>route[-2:]\<close> is the last two points (all of a shorter route), \<open>route[:-2]\<close> the
  rest; unpacking \<open>route[-2:]\<close> into two names fails unless it has two elements.\<close>

definition snap_route_to_end_point_x :: "point list \<Rightarrow> real \<Rightarrow> error + point list" where
  "snap_route_to_end_point_x route x =
     (case drop (length route - 2) route of
        [p1, p2] \<Rightarrow> Inr (take (length route - 2) route @ [(x, snd p1), (x, snd p2)])
      | _ \<Rightarrow> Inl UnpackError)"

definition snap_route_to_end_point_y :: "point list \<Rightarrow> real \<Rightarrow> error + point list" where
  "snap_route_to_end_point_y route y =
     (case drop (length route - 2) route of
        [p1, p2] \<Rightarrow> Inr (take (length route - 2) route @ [(fst p1, y), (fst p2, y)])
      | _ \<Rightarrow> Inl UnpackError)"

subsection \<open>Mid-path offsets (lines 208--223 of \<open>_generate_manhattan_bundle_waypoints\<close>)\<close>

text \<open>
  \<open>if separation:\<close> is false for \<open>None\<close> and for zero. The comprehension evaluates
  \<open>offsets_start[1]\<close> (or \<open>offsets_start[-2]\<close>) once per element of \<open>offsets_start\<close>, which
  is non-empty whenever the branch is reached, so a missing element raises.
\<close>

definition offsets_mid_of :: "real option \<Rightarrow> real list \<Rightarrow> error + real list" where
  "offsets_mid_of separation offsets_start =
     (case separation of
        None \<Rightarrow> Inr offsets_start
      | Some sep \<Rightarrow>
          if sep = 0 then Inr offsets_start
          else
            bindE (py_get offsets_start 0) (\<lambda>first.
              if first = 0 then
                bindE (py_get offsets_start 1) (\<lambda>o1.
                  Inr (map (\<lambda>i. sgn o1 * sep * real i) [0..<length offsets_start]))
              else
                bindE (py_get_neg offsets_start 1) (\<lambda>lst.
                  if lst = 0 then
                    bindE (py_get_neg offsets_start 2) (\<lambda>o2.
                      Inr (rev (map (\<lambda>i. sgn o2 * sep * real i) [0..<length offsets_start])))
                  else Inl AmbiguousSeparationError)))"

subsection \<open>Displacement and intersection\<close>

definition translate :: "segment \<Rightarrow> point \<Rightarrow> segment" where
  "translate s dp =
     (case s of (p0, p1) \<Rightarrow> ((fst p0 + fst dp, snd p0 + snd dp), (fst p1 + fst dp, snd p1 + snd dp)))"

text \<open>\<open>sh * sign_seg * a\<close> with \<open>sign_seg = None\<close> would be a \<open>TypeError\<close>.\<close>

definition displace_segment_copy :: "segment \<Rightarrow> real \<Rightarrow> real \<Rightarrow> real \<Rightarrow> error + segment" where
  "displace_segment_copy s a sh sv =
     (let sign_seg = segment_sign s
      in if is_horizontal s then
           (case sign_seg of
              None \<Rightarrow> Inl TypeError
            | Some g \<Rightarrow> Inr (translate s (0, sh * g * a)))
         else if is_vertical s then
           (case sign_seg of
              None \<Rightarrow> Inl TypeError
            | Some g \<Rightarrow> Inr (translate s (sv * g * a, 0)))
         else Inl InvalidPathError)"

definition displace_segment_copy_group1 :: "segment \<Rightarrow> real \<Rightarrow> error + segment" where
  "displace_segment_copy_group1 s a = displace_segment_copy s a 1 (- 1)"

definition intersection :: "segment \<Rightarrow> segment \<Rightarrow> error + point" where
  "intersection s1 s2 =
     (if is_horizontal s1 \<and> is_vertical s2 then Inr (fst (fst s2), snd (fst s1))
      else if is_horizontal s2 \<and> is_vertical s1 then Inr (fst (fst s1), snd (fst s2))
      else Inl NonManhattanIntersectionError)"

subsection \<open>The routing kernel\<close>

text \<open>
  The inner loop \<open>for j, seg in enumerate(way_segments)\<close> of port \<open>i\<close>, as a recursion on
  the segments still to visit. Its state is the index \<open>j\<close>, \<open>prev_seg_sep\<close> and the
  \<open>route\<close> built so far; \<open>off_mid\<close> is \<open>offsets_mid[i]\<close>.
\<close>

fun route_loop ::
  "segment list \<Rightarrow> real \<Rightarrow> port list \<Rightarrow> nat \<Rightarrow> real \<Rightarrow>
   nat \<Rightarrow> real \<Rightarrow> point list \<Rightarrow> segment list \<Rightarrow> error + point list" where
  "route_loop way_segments off_mid ports2 i end_angle j prev_seg_sep route [] = Inr route"
| "route_loop way_segments off_mid ports2 i end_angle j prev_seg_sep route (seg # rest) =
     (let seg_sep = (if j = 0 then prev_seg_sep else off_mid)
      in bindE (displace_segment_copy_group1 seg seg_sep) (\<lambda>d_seg.
         bindE (if j = 0 then Inr (fst d_seg)
                else bindE (displace_segment_copy_group1 (way_segments ! (j - 1)) prev_seg_sep)
                       (\<lambda>tmp_seg. intersection d_seg tmp_seg)) (\<lambda>start_point.
         bindE (if j = length way_segments - 1 then
                  bindE (py_get ports2 i) (\<lambda>p2.
                    let end_point = midpoint p2;
                        route1 = route @ [start_point] @ [end_point]
                    in if end_angle \<in> {0, 180}
                       then snap_route_to_end_point_y route1 (snd end_point)
                       else snap_route_to_end_point_x route1 (fst end_point))
                else Inr (route @ [start_point])) (\<lambda>route'.
         route_loop way_segments off_mid ports2 i end_angle (Suc j) seg_sep route' rest))))"

text \<open>The outer loop \<open>for i in range(N)\<close>; \<open>offsets_start\<close> and \<open>offsets_mid\<close> have
  \<open>N\<close> elements each, so \<open>offsets_start[i]\<close> and \<open>offsets_mid[i]\<close> are in range.\<close>

fun build_routes ::
  "segment list \<Rightarrow> real list \<Rightarrow> real list \<Rightarrow> port list \<Rightarrow> real \<Rightarrow> nat list \<Rightarrow>
   error + point list list" where
  "build_routes way_segments offsets_start offsets_mid ports2 end_angle [] = Inr []"
| "build_routes way_segments offsets_start offsets_mid ports2 end_angle (i # is) =
     bindE (route_loop way_segments (offsets_mid ! i) ports2 i end_angle
              0 (offsets_start ! i) [] way_segments) (\<lambda>route.
     bindE (build_routes way_segments offsets_start offsets_mid ports2 end_angle is) (\<lambda>routes.
     Inr (route # routes)))"

text \<open>The closing loop \<open>for route, start_point in zip(routes, ports1): route[0] = ...\<close>.\<close>

fun set_first_points :: "point list list \<Rightarrow> port list \<Rightarrow> error + point list list" where
  "set_first_points (route # routes) (start_point # ports1) =
     (if route = [] then Inl IndexError
      else bindE (set_first_points routes ports1) (\<lambda>routes'.
             Inr (route[0 := midpoint start_point] # routes')))"
| "set_first_points routes ports1 = Inr routes"

text \<open>Lines 225--228: both offset lists change sign when the first source port points
  up or down.\<close>

definition flip_offsets :: "real \<Rightarrow> real list \<Rightarrow> real list" where
  "flip_offsets start_angle offsets =
     (if start_angle \<in> {90, 270} then map uminus offsets else offsets)"

text \<open>
  \<open>remove_flat_angles\<close> (gdsfactory/routing/manhattan.py) is not part of the sources at
  hand; the kernel takes it as the parameter \<open>rfa\<close>, a path normaliser that may fail.
\<close>

definition generate_manhattan_bundle_waypoints ::
  "(point list \<Rightarrow> error + point list) \<Rightarrow> port list \<Rightarrow> port list \<Rightarrow> point list \<Rightarrow>
   real option \<Rightarrow> error + point list list" where
  "generate_manhattan_bundle_waypoints rfa ports1 ports2 waypoints0 separation =
     bindE (rfa waypoints0) (\<lambda>waypoints.
       let way_segments = zip waypoints (tl waypoints) in
       bindE (py_get waypoints 0) (\<lambda>w0.
         let offsets_start = get_ports_x_or_y_distances ports1 w0 in
         bindE (offsets_mid_of separation offsets_start) (\<lambda>offsets_mid.
           bindE (py_get ports1 0) (\<lambda>p10.
             let start_angle = orientation p10;
                 offsets_start' = flip_offsets start_angle offsets_start;
                 offsets_mid' = flip_offsets start_angle offsets_mid
             in bindE (py_get ports2 0) (\<lambda>p20.
                  let end_angle = orientation p20 in
                  bindE (build_routes way_segments offsets_start' offsets_mid' ports2 end_angle
                           [0..<length ports1]) (\<lambda>routes.
                    set_first_points routes ports1))))))"

subsection \<open>The entry point \<open>get_bundle_from_waypoints\<close>\<close>

datatype sort_type = X | Y | NegX | NegY

text \<open>The dictionary \<open>angles_to_sorttypes\<close>; a key that is absent raises \<open>KeyError\<close>.\<close>

definition angles_to_sorttypes :: "real \<times> real \<Rightarrow> (sort_type \<times> sort_type) option" where
  "angles_to_sorttypes key =
     (if key = (0, 180) then Some (Y, Y)
      else if key = (0, 90) then Some (Y, X)
      else if key = (0, 0) then Some (Y, NegY)
      else if key = (0, 270) then Some (Y, NegX)
      else if key = (90, 0) then Some (X, Y)
      else if key = (90, 90) then Some (X, NegX)
      else if key = (90, 180) then Some (X, NegY)
      else if key = (90, 270) then Some (X, X)
      else if key = (180, 90) then Some (Y, NegX)
      else if key = (180, 0) then Some (Y, Y)
      else if key = (180, 270) then Some (Y, X)
      else if key = (180, 180) then Some (Y, NegY)
      else if key = (270, 90) then Some (X, X)
      else if key = (270, 270) then Some (X, NegX)
      else if key = (270, 0) then Some (X, NegY)
      else if key = (270, 180) then Some (X, Y)
      else None)"

fun dict_sorts :: "sort_type \<Rightarrow> port \<Rightarrow> real" where
  "dict_sorts X p = port_x p"
| "dict_sorts Y p = port_y p"
| "dict_sorts NegX p = - port_x p"
| "dict_sorts NegY p = - port_y p"

text \<open>Python's \<open>int(x)\<close> of a number: the fractional part is dropped, towards zero.\<close>

definition py_int :: "real \<Rightarrow> int" where
  "py_int x = (if 0 \<le> x then \<lfloor>x\<rfloor> else \<lceil>x\<rceil>)"

text \<open>\<open>p.angle = int(p.angle) % 360\<close>: the assignment writes the orientation of the
  caller's port object. Python's \<open>%\<close> with a positive right operand gives a result from
  0 up to that operand, as \<open>mod\<close> on the integers does.\<close>

definition normalize_angle :: "port \<Rightarrow> port" where
  "normalize_angle p = p\<lparr>orientation := of_int (py_int (orientation p) mod 360)\<rparr>"

text \<open>
  The collaborators that are not part of the sources at hand are parameters:
  \<open>remove_flat_angles\<close>, the call \<open>cross_section(**kwargs)\<close>, one call of
  \<open>bend_factory\<close> (made once per port with the same arguments), the construction of the
  taper from the cross-section and the first port, and \<open>round_corners\<close>. Each may fail.
  They are functions of their arguments: none of them writes to a port.
\<close>

record ('x, 'b, 't, 'r) collaborators =
  remove_flat_angles :: "point list \<Rightarrow> error + point list"
  cross_section :: "error + 'x"
  bend_factory :: "error + 'b"
  taper_of :: "'x \<Rightarrow> port \<Rightarrow> error + 't"
  round_corners :: "point list \<Rightarrow> 'b \<Rightarrow> 't \<Rightarrow> error + 'r"

text \<open>A list comprehension whose body may raise: the first failure aborts it.\<close>

fun mapE :: "('a \<Rightarrow> error + 'b) \<Rightarrow> 'a list \<Rightarrow> error + 'b list" where
  "mapE f [] = Inr []"
| "mapE f (a # as) = bindE (f a) (\<lambda>b. bindE (mapE f as) (\<lambda>bs. Inr (b # bs)))"

text \<open>
  The caller's two lists are sorted in place and the caller's ports are written to, so the
  model returns the two lists as the call leaves them, next to the result or the error.
\<close>

definition get_bundle_from_waypoints ::
  "('x, 'b, 't, 'r) collaborators \<Rightarrow> port list \<Rightarrow> port list \<Rightarrow> point list \<Rightarrow> bool \<Rightarrow>
   real option \<Rightarrow> port list \<times> port list \<times> (error + 'r list)" where
  "get_bundle_from_waypoints c ports1 ports2 waypoints sort_ports separation =
     (if length ports2 \<noteq> length ports1 then (ports1, ports2, Inl PortCountMismatchError)
      else
        let ps1 = map normalize_angle ports1;
            ps2 = map normalize_angle ports2
        in case py_get ps1 0 of
             Inl e \<Rightarrow> (ps1, ps2, Inl e)
           | Inr p10 \<Rightarrow>
             (case py_get ps2 0 of
                Inl e \<Rightarrow> (ps1, ps2, Inl e)
              | Inr p20 \<Rightarrow>
                let start_angle = orientation p10;
                    end_angle = orientation p20;
                    waypoints' = [midpoint p10] @ waypoints @ [midpoint p20]
                in (case angles_to_sorttypes (start_angle, end_angle) of
                     None \<Rightarrow> (ps1, ps2, Inl KeyError)
                   | Some st \<Rightarrow>
                     let sp_st = fst st;
                         ep_st = snd st;
                         qs1 = (if sort_ports then sort_key (dict_sorts sp_st) ps1 else ps1);
                         qs2 = (if sort_ports then sort_key (dict_sorts ep_st) ps2 else ps2)
                     in (qs1, qs2,
                         bindE (generate_manhattan_bundle_waypoints (remove_flat_angles c)
                                  qs1 qs2 waypoints' separation) (\<lambda>routes.
                         bindE (cross_section c) (\<lambda>x.
                         bindE (mapE (\<lambda>p. bend_factory c) qs1) (\<lambda>bends90.
                         bindE (py_get qs1 0) (\<lambda>q10.
                         bindE (taper_of c x q10) (\<lambda>taper.
                         mapE (\<lambda>(pts, bend90). round_corners c pts bend90 taper)
                           (zip routes bends90))))))))))"

subsection \<open>Reference definitions for the statements\<close>

text \<open>
  The corner the specification describes for segment \<open>k\<close> of a port whose start offset is
  \<open>os\<close> and mid-path offset is \<open>om\<close>: the first point of the displaced segment for
  \<open>k = 0\<close>, and for \<open>k > 0\<close> the intersection of segment \<open>k\<close> displaced by \<open>om\<close> with
  segment \<open>k - 1\<close> displaced by the offset segment \<open>k - 1\<close> was displaced by. It is what
  the theorems compare the loop \<open>route_loop\<close> with.
\<close>

definition spec_corner :: "segment list \<Rightarrow> real \<Rightarrow> real \<Rightarrow> nat \<Rightarrow> error + point" where
  "spec_corner ws os om k =
     bindE (displace_segment_copy_group1 (ws ! k) (if k = 0 then os else om)) (\<lambda>d.
       if k = 0 then Inr (fst d)
       else bindE (displace_segment_copy_group1 (ws ! (k - 1)) (if k = 1 then os else om))
              (\<lambda>tmp. intersection d tmp))"

text \<open>What the endpoint snapper of the specification does to the last corner \<open>c\<close> of a
  route that ends at \<open>e\<close>.\<close>

definition snap_pair :: "real \<Rightarrow> point \<Rightarrow> point \<Rightarrow> point" where
  "snap_pair end_angle e c = (if end_angle \<in> {0, 180} then (fst c, snd e) else (fst e, snd c))"

text \<open>A pair of segments the intersection accepts: one horizontal, the other vertical.\<close>

definition hv_pair :: "segment \<Rightarrow> segment \<Rightarrow> bool" where
  "hv_pair s1 s2 \<longleftrightarrow>
     is_horizontal s1 \<and> is_vertical s2 \<or> is_horizontal s2 \<and> is_vertical s1"

text \<open>A port of width one half, and collaborators that do nothing: the normaliser keeps
  the path, the factories return a unit value, and \<open>round_corners\<close> returns its points.\<close>

definition mk_port :: "real \<Rightarrow> point \<Rightarrow> port" where
  "mk_port a xy = \<lparr>midpoint = xy, orientation = a, width = 1 / 2\<rparr>"

definition plain_collaborators :: "(unit, unit, unit, point list) collaborators" where
  "plain_collaborators =
     \<lparr>remove_flat_angles = Inr,
      cross_section = Inr (),
      bend_factory = Inr (),
      taper_of = (\<lambda>x p. Inr ()),
      round_corners = (\<lambda>pts b t. Inr pts)\<rparr>"

section \<open>Properties\<close>

subsection \<open>Auxiliary facts\<close>

lemma bindE_Inr [simp]: "bindE (Inr v) f = f v"
  by (simp add: bindE_def)

lemma bindE_Inl [simp]: "bindE (Inl e) f = Inl e"
  by (simp add: bindE_def)

lemma bindE_eq_Inr: "bindE m f = Inr r \<longleftrightarrow> (\<exists>v. m = Inr v \<and> f v = Inr r)"
  by (cases m) simp_all

lemma rev_map_upt: "rev (map f [0..<n]) = map (\<lambda>i. f (n - 1 - i)) [0..<n]"
  by (rule nth_equalityI) (simp_all add: rev_nth)

lemma snap_y_append2 [simp]:
  "snap_route_to_end_point_y (route @ [a, b]) y = Inr (route @ [(fst a, y), (fst b, y)])"
  by (simp add: snap_route_to_end_point_y_def)

lemma snap_x_append2 [simp]:
  "snap_route_to_end_point_x (route @ [a, b]) x = Inr (route @ [(x, snd a), (x, snd b)])"
  by (simp add: snap_route_to_end_point_x_def)

lemmas eval_defs =
  generate_manhattan_bundle_waypoints_def bindE_def py_get_def py_get_neg_def
  get_ports_x_or_y_distances_def get_list_ports_angle_def offsets_mid_of_def flip_offsets_def
  displace_segment_copy_group1_def displace_segment_copy_def segment_sign_def
  is_horizontal_def is_vertical_def tol_def translate_def intersection_def
  snap_route_to_end_point_x_def snap_route_to_end_point_y_def port_x_def port_y_def
  mk_port_def Let_def upt_rec

lemma offsets_mid_first_zero:
  assumes "sep \<noteq> 0" and "2 \<le> length os" and "os ! 0 = 0"
  shows "offsets_mid_of (Some sep) os =
         Inr (map (\<lambda>i. sgn (os ! 1) * sep * real i) [0..<length os])"
  using assms by (auto simp: offsets_mid_of_def py_get_def)

lemma offsets_mid_last_zero:
  assumes "sep \<noteq> 0" and "2 \<le> length os" and "os ! 0 \<noteq> 0" and "last os = 0"
  shows "offsets_mid_of (Some sep) os =
         Inr (map (\<lambda>i. sgn (os ! (length os - 2)) * sep * real (length os - 1 - i))
                [0..<length os])"
proof -
  have "os \<noteq> []" using assms(2) by auto
  then have "os ! (length os - 1) = 0" using assms(4) by (simp add: last_conv_nth)
  then show ?thesis
    using assms by (auto simp: offsets_mid_of_def py_get_def py_get_neg_def rev_map_upt)
qed

lemma offsets_mid_neither_zero:
  assumes "sep \<noteq> 0" and "1 \<le> length os" and "os ! 0 \<noteq> 0" and "last os \<noteq> 0"
  shows "offsets_mid_of (Some sep) os = Inl AmbiguousSeparationError"
proof -
  have "os \<noteq> []" using assms(2) by auto
  then have "os ! (length os - 1) \<noteq> 0" using assms(4) by (simp add: last_conv_nth)
  then show ?thesis
    using assms by (auto simp: offsets_mid_of_def py_get_def py_get_neg_def)
qed

lemma generate_unfold:
  assumes "rfa wps = Inr w" and "w \<noteq> []" and "ports1 \<noteq> []" and "ports2 \<noteq> []"
  shows "generate_manhattan_bundle_waypoints rfa ports1 ports2 wps separation =
         bindE (offsets_mid_of separation (get_ports_x_or_y_distances ports1 (hd w))) (\<lambda>om.
           bindE (build_routes (zip w (tl w))
                    (flip_offsets (orientation (hd ports1))
                       (get_ports_x_or_y_distances ports1 (hd w)))
                    (flip_offsets (orientation (hd ports1)) om)
                    ports2 (orientation (hd ports2)) [0..<length ports1]) (\<lambda>routes.
             set_first_points routes ports1))"
  using assms
  by (simp add: generate_manhattan_bundle_waypoints_def py_get_def hd_conv_nth Let_def)

subsection \<open>The inner loop, the outer loop and the closing loop\<close>

text \<open>One iteration of the inner loop, when it succeeds.\<close>

lemma route_loop_step:
  assumes "route_loop ws om ps2 i ea j prev route (seg # rest) = Inr r"
  shows "\<exists>d c. displace_segment_copy_group1 seg (if j = 0 then prev else om) = Inr d
           \<and> (if j = 0 then c = fst d
               else \<exists>tmp. displace_segment_copy_group1 (ws ! (j - 1)) prev = Inr tmp
                          \<and> intersection d tmp = Inr c)
           \<and> (if j = length ws - 1
               then i < length ps2 \<and>
                    route_loop ws om ps2 i ea (Suc j) (if j = 0 then prev else om)
                      (route @ [snap_pair ea (midpoint (ps2 ! i)) c, midpoint (ps2 ! i)]) rest = Inr r
               else route_loop ws om ps2 i ea (Suc j) (if j = 0 then prev else om)
                      (route @ [c]) rest = Inr r)"
proof -
  let ?sep = "if j = 0 then prev else om"
  let ?e = "midpoint (ps2 ! i)"
  from assms obtain d c r' where
    d: "displace_segment_copy_group1 seg ?sep = Inr d" and
    c: "(if j = 0 then Inr (fst d)
         else bindE (displace_segment_copy_group1 (ws ! (j - 1)) prev)
                (\<lambda>tmp_seg. intersection d tmp_seg)) = Inr c" and
    r': "(if j = length ws - 1 then
            bindE (py_get ps2 i) (\<lambda>p2.
              if ea \<in> {0, 180}
              then snap_route_to_end_point_y (route @ [c] @ [midpoint p2]) (snd (midpoint p2))
              else snap_route_to_end_point_x (route @ [c] @ [midpoint p2]) (fst (midpoint p2)))
          else Inr (route @ [c])) = Inr r'" and
    rec: "route_loop ws om ps2 i ea (Suc j) ?sep r' rest = Inr r"
    unfolding route_loop.simps Let_def bindE_eq_Inr by blast
  have c': "if j = 0 then c = fst d
            else \<exists>tmp. displace_segment_copy_group1 (ws ! (j - 1)) prev = Inr tmp
                       \<and> intersection d tmp = Inr c"
    using c by (simp add: bindE_eq_Inr split: if_splits)
  have r'': "if j = length ws - 1
             then i < length ps2 \<and> r' = route @ [snap_pair ea ?e c, ?e]
             else r' = route @ [c]"
    using r' by (auto simp: bindE_eq_Inr py_get_def snap_pair_def split: if_splits)
  show ?thesis
  proof (intro exI [of _ d] exI [of _ c] conjI)
    show "displace_segment_copy_group1 seg ?sep = Inr d" by (rule d)
    show "if j = 0 then c = fst d
          else \<exists>tmp. displace_segment_copy_group1 (ws ! (j - 1)) prev = Inr tmp
                     \<and> intersection d tmp = Inr c" by (rule c')
    show "if j = length ws - 1
          then i < length ps2 \<and>
               route_loop ws om ps2 i ea (Suc j) ?sep (route @ [snap_pair ea ?e c, ?e]) rest = Inr r
          else route_loop ws om ps2 i ea (Suc j) ?sep (route @ [c]) rest = Inr r"
      using r'' rec by (simp split: if_splits)
  qed
qed

lemma route_loop_invariant:
  assumes "route_loop ws om ps2 i ea j prev route (drop j ws) = Inr r"
    and "j < length ws" and "length route = j"
    and "prev = (if j \<le> 1 then os else om)"
  shows "i < length ps2 \<and> length r = Suc (length ws) \<and> take j r = route
       \<and> r ! length ws = midpoint (ps2 ! i)
       \<and> (\<forall>k. j \<le> k \<and> k < length ws \<longrightarrow>
            (\<exists>c. spec_corner ws os om k = Inr c
               \<and> r ! k = (if k = length ws - 1 then snap_pair ea (midpoint (ps2 ! i)) c else c)))"
  using assms
proof (induction "length ws - j" arbitrary: j prev route)
  case 0
  then show ?case by simp
next
  case (Suc n)
  let ?sep = "if j = 0 then prev else om"
  let ?e = "midpoint (ps2 ! i)"
  have dr: "drop j ws = ws ! j # drop (Suc j) ws"
    using Suc.prems(2) by (simp add: Cons_nth_drop_Suc)
  from Suc.prems(1) obtain d c where
    d: "displace_segment_copy_group1 (ws ! j) ?sep = Inr d" and
    c: "if j = 0 then c = fst d
        else \<exists>tmp. displace_segment_copy_group1 (ws ! (j - 1)) prev = Inr tmp
                   \<and> intersection d tmp = Inr c" and
    nx: "if j = length ws - 1
         then i < length ps2 \<and>
              route_loop ws om ps2 i ea (Suc j) ?sep (route @ [snap_pair ea ?e c, ?e])
                (drop (Suc j) ws) = Inr r
         else route_loop ws om ps2 i ea (Suc j) ?sep (route @ [c]) (drop (Suc j) ws) = Inr r"
    unfolding dr using route_loop_step [of ws om ps2 i ea j prev route "ws ! j" "drop (Suc j) ws" r]
    by blast
  have sc: "spec_corner ws os om j = Inr c"
  proof -
    consider "j = 0" | "j = 1" | "2 \<le> j" by linarith
    then show ?thesis
    proof cases
      case 1
      then show ?thesis using d c Suc.prems(4) by (simp add: spec_corner_def)
    next
      case 2
      then show ?thesis using d c Suc.prems(4) by (auto simp: spec_corner_def)
    next
      case 3
      then have "j \<noteq> 0" "j \<noteq> 1" "\<not> j \<le> 1" by simp_all
      then show ?thesis using d c Suc.prems(4) by (auto simp: spec_corner_def)
    qed
  qed
  show ?case
  proof (cases "j = length ws - 1")
    case True
    then have "Suc j = length ws" using Suc.prems(2) by simp
    with nx True have i: "i < length ps2" and r: "r = route @ [snap_pair ea ?e c, ?e]"
      by simp_all
    have k: "\<And>k. j \<le> k \<Longrightarrow> k < length ws \<Longrightarrow> k = j"
      using True by simp
    have "\<exists>c'. spec_corner ws os om k = Inr c'
            \<and> r ! k = (if k = length ws - 1 then snap_pair ea ?e c' else c')"
      if "j \<le> k" "k < length ws" for k
    proof -
      have "k = j" using that k by blast
      moreover have "r ! j = snap_pair ea ?e c"
        using r Suc.prems(3) by (simp add: nth_append)
      ultimately show ?thesis using sc True by auto
    qed
    moreover have "take j r = route" using r Suc.prems(3) by simp
    moreover have "r ! length ws = ?e"
      using r Suc.prems(3) \<open>Suc j = length ws\<close> by (simp add: nth_append)
    moreover have "length r = Suc (length ws)"
      using r Suc.prems(3) \<open>Suc j = length ws\<close> by simp
    ultimately show ?thesis using i by blast
  next
    case False
    with nx have rec: "route_loop ws om ps2 i ea (Suc j) ?sep (route @ [c]) (drop (Suc j) ws) = Inr r"
      by simp
    have lt: "Suc j < length ws" using False Suc.prems(2) by simp
    have n: "n = length ws - Suc j" using Suc.hyps(2) by simp
    have pv: "?sep = (if Suc j \<le> 1 then os else om)"
      using Suc.prems(4) by simp
    have ln: "length (route @ [c]) = Suc j" using Suc.prems(3) by simp
    note IH = Suc.hyps(1) [OF n rec lt ln pv]
    from IH have tk: "take (Suc j) r = route @ [c]" by blast
    from IH have len: "length r = Suc (length ws)" by blast
    have rj: "r ! j = c"
    proof -
      have "r ! j = take (Suc j) r ! j" by simp
      also have "\<dots> = c" unfolding tk using Suc.prems(3) by (simp add: nth_append)
      finally show ?thesis .
    qed
    have tj: "take j r = route"
    proof -
      have "take j r = take j (take (Suc j) r)" by (simp add: min_def)
      also have "\<dots> = route" unfolding tk using Suc.prems(3) by simp
      finally show ?thesis .
    qed
    have "\<exists>c'. spec_corner ws os om k = Inr c'
            \<and> r ! k = (if k = length ws - 1 then snap_pair ea ?e c' else c')"
      if "j \<le> k" "k < length ws" for k
    proof (cases "k = j")
      case True
      then show ?thesis using sc rj False by auto
    next
      case False
      then have "Suc j \<le> k" using that by simp
      then show ?thesis using IH that by blast
    qed
    then show ?thesis using IH tj by blast
  qed
qed

lemma route_loop_result:
  assumes "route_loop ws om ps2 i ea 0 os [] ws = Inr r" and "ws \<noteq> []"
  shows "i < length ps2" and "length r = Suc (length ws)"
    and "r ! length ws = midpoint (ps2 ! i)"
    and "\<And>k. k < length ws \<Longrightarrow>
           \<exists>c. spec_corner ws os om k = Inr c
              \<and> r ! k = (if k = length ws - 1 then snap_pair ea (midpoint (ps2 ! i)) c else c)"
proof -
  have "route_loop ws om ps2 i ea 0 os [] (drop 0 ws) = Inr r" using assms(1) by simp
  moreover have "0 < length ws" using assms(2) by simp
  moreover have "length ([] :: point list) = 0" by simp
  moreover have "os = (if (0::nat) \<le> 1 then os else om)" by simp
  ultimately have inv:
    "i < length ps2 \<and> length r = Suc (length ws) \<and> take 0 r = []
       \<and> r ! length ws = midpoint (ps2 ! i)
       \<and> (\<forall>k. 0 \<le> k \<and> k < length ws \<longrightarrow>
            (\<exists>c. spec_corner ws os om k = Inr c
               \<and> r ! k = (if k = length ws - 1 then snap_pair ea (midpoint (ps2 ! i)) c else c)))"
    by (rule route_loop_invariant)
  show "i < length ps2" using inv by blast
  show "length r = Suc (length ws)" using inv by blast
  show "r ! length ws = midpoint (ps2 ! i)" using inv by blast
  show "\<exists>c. spec_corner ws os om k = Inr c
          \<and> r ! k = (if k = length ws - 1 then snap_pair ea (midpoint (ps2 ! i)) c else c)"
    if "k < length ws" for k
    using inv that by blast
qed

lemma build_routes_result:
  assumes "build_routes ws os om ps2 ea is = Inr rs"
  shows "length rs = length is
       \<and> (\<forall>n < length is.
            route_loop ws (om ! (is ! n)) ps2 (is ! n) ea 0 (os ! (is ! n)) [] ws = Inr (rs ! n))"
  using assms
proof (induction "is" arbitrary: rs)
  case Nil
  then show ?case by simp
next
  case (Cons i "is")
  from Cons.prems obtain r rs' where
    r: "route_loop ws (om ! i) ps2 i ea 0 (os ! i) [] ws = Inr r" and
    rs': "build_routes ws os om ps2 ea is = Inr rs'" and
    rs: "rs = r # rs'"
    by (auto simp: bindE_eq_Inr)
  note IH = Cons.IH [OF rs']
  show ?case
  proof (intro conjI allI impI)
    show "length rs = length (i # is)" using IH rs by simp
    fix n assume "n < length (i # is)"
    then show "route_loop ws (om ! ((i # is) ! n)) ps2 ((i # is) ! n) ea 0
                 (os ! ((i # is) ! n)) [] ws = Inr (rs ! n)"
      using IH r rs by (cases n) auto
  qed
qed

lemma set_first_points_result:
  assumes "set_first_points rs ps = Inr rs'" and "length rs = length ps"
  shows "length rs' = length rs
       \<and> (\<forall>n < length rs. rs ! n \<noteq> [] \<and> rs' ! n = (rs ! n)[0 := midpoint (ps ! n)])"
  using assms
proof (induction rs ps arbitrary: rs' rule: set_first_points.induct)
  case (1 route routes start_point ports1)
  from "1.prems"(1) have ne: "route \<noteq> []" by (auto split: if_splits)
  with "1.prems"(1) obtain routes' where
    a: "set_first_points routes ports1 = Inr routes'" and
    b: "rs' = route[0 := midpoint start_point] # routes'"
    by (auto simp: bindE_eq_Inr)
  have len: "length routes = length ports1" using "1.prems"(2) by simp
  note IH = "1.IH" [OF ne a len]
  show ?case
  proof (intro conjI allI impI)
    show "length rs' = length (route # routes)" using IH b by simp
    fix n assume "n < length (route # routes)"
    then show "(route # routes) ! n \<noteq> []" using IH ne by (cases n) auto
    show "rs' ! n = ((route # routes) ! n)[0 := midpoint ((start_point # ports1) ! n)]"
      using IH b \<open>n < length (route # routes)\<close> by (cases n) auto
  qed
qed simp_all

lemma generate_Inr:
  assumes "generate_manhattan_bundle_waypoints rfa ports1 ports2 wps separation = Inr routes"
  obtains w om rs where
    "rfa wps = Inr w" and "w \<noteq> []" and "ports1 \<noteq> []" and "ports2 \<noteq> []"
    and "offsets_mid_of separation (get_ports_x_or_y_distances ports1 (hd w)) = Inr om"
    and "build_routes (zip w (tl w))
           (flip_offsets (orientation (hd ports1)) (get_ports_x_or_y_distances ports1 (hd w)))
           (flip_offsets (orientation (hd ports1)) om)
           ports2 (orientation (hd ports2)) [0..<length ports1] = Inr rs"
    and "set_first_points rs ports1 = Inr routes"
proof -
  from assms obtain w where w: "rfa wps = Inr w"
    by (auto simp: generate_manhattan_bundle_waypoints_def bindE_eq_Inr)
  have ne: "w \<noteq> []" "ports1 \<noteq> []" "ports2 \<noteq> []"
    using assms w
    by (auto simp: generate_manhattan_bundle_waypoints_def bindE_eq_Inr py_get_def Let_def
        split: if_splits)
  from assms obtain om rs where
    "offsets_mid_of separation (get_ports_x_or_y_distances ports1 (hd w)) = Inr om"
    "build_routes (zip w (tl w))
           (flip_offsets (orientation (hd ports1)) (get_ports_x_or_y_distances ports1 (hd w)))
           (flip_offsets (orientation (hd ports1)) om)
           ports2 (orientation (hd ports2)) [0..<length ports1] = Inr rs"
    "set_first_points rs ports1 = Inr routes"
    using generate_unfold [of rfa wps w ports1 ports2 separation] w ne
    by (auto simp: bindE_eq_Inr)
  then show thesis using that w ne by blast
qed

subsection \<open>Displaced segments keep their class\<close>

lemma is_horizontal_translate [simp]: "is_horizontal (translate s dp) = is_horizontal s"
  by (cases s) (simp add: is_horizontal_def translate_def)

lemma is_vertical_translate [simp]: "is_vertical (translate s dp) = is_vertical s"
  by (cases s) (simp add: is_vertical_def translate_def)

lemma displace_Inr_translate:
  assumes "displace_segment_copy_group1 s a = Inr d"
  shows "\<exists>dp. d = translate s dp"
proof -
  have "displace_segment_copy s a 1 (- 1) = Inr d"
    using assms by (simp add: displace_segment_copy_group1_def)
  then show ?thesis
    unfolding displace_segment_copy_def Let_def
    by (cases "segment_sign s"; cases "is_horizontal s"; cases "is_vertical s") auto
qed

lemma displace_manhattan:
  assumes "is_horizontal s \<or> is_vertical s"
  shows "\<exists>dp. displace_segment_copy_group1 s a = Inr (translate s dp)"
proof -
  have "segment_sign s \<noteq> None"
    using assms by (cases s) (auto simp: segment_sign_def)
  then obtain g where g: "segment_sign s = Some g" by blast
  show ?thesis
    using assms g
    by (cases "is_horizontal s")
      (auto simp: displace_segment_copy_group1_def displace_segment_copy_def)
qed

lemma intersection_hv:
  "intersection s1 s2 = Inl NonManhattanIntersectionError \<longleftrightarrow> \<not> hv_pair s1 s2"
  by (auto simp: intersection_def hv_pair_def)

lemma intersection_Inr:
  assumes "hv_pair s1 s2"
  shows "\<exists>c. intersection s1 s2 = Inr c"
  using assms by (auto simp: intersection_def hv_pair_def)

lemma hv_pair_translate [simp]:
  "hv_pair (translate s1 dp) (translate s2 dq) = hv_pair s1 s2"
  by (simp add: hv_pair_def)

lemma displace_diagonal:
  assumes "\<not> is_horizontal s" and "\<not> is_vertical s"
  shows "displace_segment_copy_group1 s a = Inl InvalidPathError"
  using assms by (simp add: displace_segment_copy_group1_def displace_segment_copy_def)

text \<open>The inner loop runs without failure through the segments before \<open>j0\<close> when each of
  them is horizontal or vertical and each pair of neighbours among them is one of each.\<close>

lemma route_loop_good_prefix:
  assumes man: "\<And>k. k < j0 \<Longrightarrow> is_horizontal (ws ! k) \<or> is_vertical (ws ! k)"
    and good: "\<And>k. 0 < k \<Longrightarrow> k < j0 \<Longrightarrow> hv_pair (ws ! k) (ws ! (k - 1))"
    and j0: "j0 < length ws"
    and j: "j \<le> j0"
  shows "\<exists>prev' route'. route_loop ws om ps2 i ea j prev route (drop j ws) =
            route_loop ws om ps2 i ea j0 prev' route' (drop j0 ws)"
  using j
proof (induction "j0 - j" arbitrary: j prev route)
  case 0
  then have "j = j0" by simp
  then show ?case by blast
next
  case (Suc n)
  then have lt: "j < j0" by simp
  then have jl: "j < length ws" "j \<noteq> length ws - 1" using j0 by simp_all
  have dr: "drop j ws = ws ! j # drop (Suc j) ws"
    using jl(1) by (simp add: Cons_nth_drop_Suc)
  have n: "n = j0 - Suc j" using Suc.hyps(2) by simp
  have le: "Suc j \<le> j0" using lt by simp
  note IH = Suc.hyps(1) [OF n le]
  show ?case
  proof (cases "j = 0")
    case True
    obtain dp where d: "displace_segment_copy_group1 (ws ! j) prev = Inr (translate (ws ! j) dp)"
      using displace_manhattan [OF man [OF lt]] by blast
    have "route_loop ws om ps2 i ea j prev route (ws ! j # drop (Suc j) ws) =
            route_loop ws om ps2 i ea (Suc j) prev (route @ [fst (translate (ws ! j) dp)])
              (drop (Suc j) ws)"
      using True d jl(2) by simp
    then show ?thesis unfolding dr using IH by simp
  next
    case False
    obtain dp where d: "displace_segment_copy_group1 (ws ! j) om = Inr (translate (ws ! j) dp)"
      using displace_manhattan [OF man [OF lt]] by blast
    have "j - 1 < j0" using lt by simp
    then obtain dq where t: "displace_segment_copy_group1 (ws ! (j - 1)) prev =
        Inr (translate (ws ! (j - 1)) dq)"
      using displace_manhattan [OF man] by blast
    have "hv_pair (translate (ws ! j) dp) (translate (ws ! (j - 1)) dq)"
      using good [of j] lt False by simp
    then obtain c where c: "intersection (translate (ws ! j) dp) (translate (ws ! (j - 1)) dq) = Inr c"
      using intersection_Inr by blast
    have "route_loop ws om ps2 i ea j prev route (ws ! j # drop (Suc j) ws) =
            route_loop ws om ps2 i ea (Suc j) om (route @ [c]) (drop (Suc j) ws)"
      using False d t c jl(2) by simp
    then show ?thesis unfolding dr using IH by simp
  qed
qed

lemma route_loop_bad_pair:
  assumes man: "\<And>k. k \<le> j0 \<Longrightarrow> is_horizontal (ws ! k) \<or> is_vertical (ws ! k)"
    and j0: "0 < j0" "j0 < length ws" "\<not> hv_pair (ws ! j0) (ws ! (j0 - 1))"
    and least: "\<And>k. 0 < k \<Longrightarrow> k < j0 \<Longrightarrow> hv_pair (ws ! k) (ws ! (k - 1))"
  shows "route_loop ws om ps2 i ea 0 os [] ws = Inl NonManhattanIntersectionError"
proof -
  have man': "\<And>k. k < j0 \<Longrightarrow> is_horizontal (ws ! k) \<or> is_vertical (ws ! k)"
    using man by simp
  from route_loop_good_prefix [OF man' least j0(2), of 0 om ps2 i ea os "[]"]
  obtain prev route where
    e: "route_loop ws om ps2 i ea 0 os [] ws =
          route_loop ws om ps2 i ea j0 prev route (drop j0 ws)"
    by auto
  have dr: "drop j0 ws = ws ! j0 # drop (Suc j0) ws"
    using j0(2) by (simp add: Cons_nth_drop_Suc)
  obtain dp where d: "displace_segment_copy_group1 (ws ! j0) om = Inr (translate (ws ! j0) dp)"
    using displace_manhattan [OF man [of j0]] by blast
  have m: "is_horizontal (ws ! (j0 - 1)) \<or> is_vertical (ws ! (j0 - 1))"
    using man [of "j0 - 1"] by simp
  from displace_manhattan [where a = prev, OF m]
  obtain dq where t: "displace_segment_copy_group1 (ws ! (j0 - 1)) prev =
      Inr (translate (ws ! (j0 - 1)) dq)"
    by blast
  have x: "intersection (translate (ws ! j0) dp) (translate (ws ! (j0 - 1)) dq) =
          Inl NonManhattanIntersectionError"
    using j0(3) by (simp add: intersection_hv)
  have "route_loop ws om ps2 i ea j0 prev route (ws ! j0 # drop (Suc j0) ws) =
          Inl NonManhattanIntersectionError"
    using j0(1) d t x by simp
  then show ?thesis unfolding e dr .
qed

lemma route_loop_fails_on_bad_pair:
  assumes man: "\<And>k. k \<le> j \<Longrightarrow> is_horizontal (ws ! k) \<or> is_vertical (ws ! k)"
    and bad: "0 < j" "j < length ws" "\<not> hv_pair (ws ! j) (ws ! (j - 1))"
  shows "route_loop ws om ps2 i ea 0 os [] ws = Inl NonManhattanIntersectionError"
proof -
  define P where "P k \<longleftrightarrow> 0 < k \<and> k < length ws \<and> \<not> hv_pair (ws ! k) (ws ! (k - 1))" for k
  have "P j" using bad by (simp add: P_def)
  define j0 where "j0 = (LEAST k. P k)"
  have P0: "P j0" unfolding j0_def using \<open>P j\<close> by (rule LeastI)
  have le: "j0 \<le> j" unfolding j0_def using \<open>P j\<close> by (rule Least_le)
  have least: "hv_pair (ws ! k) (ws ! (k - 1))" if k: "0 < k" "k < j0" for k
  proof -
    have "\<not> P k" using k(2) unfolding j0_def by (rule not_less_Least)
    moreover have "k < length ws" using k P0 by (simp add: P_def)
    ultimately show ?thesis using k by (simp add: P_def)
  qed
  have a: "0 < j0" and b: "j0 < length ws" and c: "\<not> hv_pair (ws ! j0) (ws ! (j0 - 1))"
    using P0 by (simp_all add: P_def)
  have man': "is_horizontal (ws ! k) \<or> is_vertical (ws ! k)" if "k \<le> j0" for k
    using man [of k] that le by simp
  show ?thesis
    by (rule route_loop_bad_pair [OF man' a b c least])
qed

lemma route_loop_fails_on_diagonal:
  assumes man: "\<And>k. k < j \<Longrightarrow> is_horizontal (ws ! k) \<or> is_vertical (ws ! k)"
    and good: "\<And>k. 0 < k \<Longrightarrow> k < j \<Longrightarrow> hv_pair (ws ! k) (ws ! (k - 1))"
    and j: "j < length ws"
    and diag: "\<not> is_horizontal (ws ! j)" "\<not> is_vertical (ws ! j)"
  shows "route_loop ws om ps2 i ea 0 os [] ws = Inl InvalidPathError"
proof -
  from route_loop_good_prefix [OF man good j, of 0 om ps2 i ea os "[]"]
  obtain prev route where
    e: "route_loop ws om ps2 i ea 0 os [] ws =
          route_loop ws om ps2 i ea j prev route (drop j ws)"
    by auto
  have dr: "drop j ws = ws ! j # drop (Suc j) ws"
    using j by (simp add: Cons_nth_drop_Suc)
  have "route_loop ws om ps2 i ea j prev route (ws ! j # drop (Suc j) ws) =
          Inl InvalidPathError"
    by (simp add: displace_diagonal [OF diag])
  then show ?thesis unfolding e dr .
qed

lemma generate_routes:
  assumes "generate_manhattan_bundle_waypoints rfa ports1 ports2 wps separation = Inr routes"
  shows "\<exists>w om. rfa wps = Inr w \<and> w \<noteq> [] \<and> ports1 \<noteq> [] \<and> ports2 \<noteq> []
    \<and> offsets_mid_of separation (get_ports_x_or_y_distances ports1 (hd w)) = Inr om
    \<and> length routes = length ports1 \<and> zip w (tl w) \<noteq> []
    \<and> (\<forall>i < length ports1.
           \<exists>r. route_loop (zip w (tl w))
                  (flip_offsets (orientation (hd ports1)) om ! i) ports2 i
                  (orientation (hd ports2)) 0
                  (flip_offsets (orientation (hd ports1))
                     (get_ports_x_or_y_distances ports1 (hd w)) ! i)
                  [] (zip w (tl w)) = Inr r
              \<and> routes ! i = r[0 := midpoint (ports1 ! i)])"
proof -
  from assms obtain w om rs where
    w: "rfa wps = Inr w" "w \<noteq> []" "ports1 \<noteq> []" "ports2 \<noteq> []" and
    om: "offsets_mid_of separation (get_ports_x_or_y_distances ports1 (hd w)) = Inr om" and
    br: "build_routes (zip w (tl w))
           (flip_offsets (orientation (hd ports1)) (get_ports_x_or_y_distances ports1 (hd w)))
           (flip_offsets (orientation (hd ports1)) om)
           ports2 (orientation (hd ports2)) [0..<length ports1] = Inr rs" and
    sf: "set_first_points rs ports1 = Inr routes"
    by (rule generate_Inr)
  let ?ws = "zip w (tl w)"
  let ?os = "flip_offsets (orientation (hd ports1)) (get_ports_x_or_y_distances ports1 (hd w))"
  let ?om = "flip_offsets (orientation (hd ports1)) om"
  let ?ea = "orientation (hd ports2)"
  from build_routes_result [OF br]
  have lrs: "length rs = length ports1"
    and rl: "\<And>n. n < length ports1 \<Longrightarrow>
          route_loop ?ws (?om ! n) ports2 n ?ea 0 (?os ! n) [] ?ws = Inr (rs ! n)"
    by simp_all
  from set_first_points_result [OF sf lrs]
  have lroutes: "length routes = length ports1"
    and ne: "\<And>n. n < length ports1 \<Longrightarrow> rs ! n \<noteq> []"
    and upd: "\<And>n. n < length ports1 \<Longrightarrow> routes ! n = (rs ! n)[0 := midpoint (ports1 ! n)]"
    using lrs by simp_all
  have wsne: "?ws \<noteq> []"
  proof
    assume e: "?ws = []"
    have "0 < length ports1" using w(3) by simp
    then have "route_loop ?ws (?om ! 0) ports2 0 ?ea 0 (?os ! 0) [] ?ws = Inr (rs ! 0)"
      and "rs ! 0 \<noteq> []"
      using rl ne by blast+
    then show False unfolding e by simp
  qed
  have loops: "\<exists>r. route_loop ?ws (?om ! i) ports2 i ?ea 0 (?os ! i) [] ?ws = Inr r
          \<and> routes ! i = r[0 := midpoint (ports1 ! i)]" if i: "i < length ports1" for i
    using rl [OF i] upd [OF i] by blast
  show ?thesis
    using w om lroutes wsne loops by blast
qed

subsection \<open>A single port with a separation\<close>

text \<open>
  Claim C10. For a bundle of one port and a separation that is not zero,
  \<open>_generate_manhattan_bundle_waypoints\<close> never returns routes. Once the path normaliser has
  returned a non-empty path, the call raises \<open>IndexError\<close> (the read of \<open>offsets_start[1]\<close>)
  when the lone start offset is exactly zero, and \<open>AmbiguousSeparationError\<close> otherwise.
\<close>

theorem single_port_with_separation_fails:
  assumes "sep \<noteq> 0"
  shows "(\<exists>e. generate_manhattan_bundle_waypoints rfa [p] ports2 wps (Some sep) = Inl e)
       \<and> (\<forall>w. rfa wps = Inr w \<and> w \<noteq> [] \<longrightarrow>
            generate_manhattan_bundle_waypoints rfa [p] ports2 wps (Some sep) =
              Inl (if (if orientation p \<in> {0, 180} then port_y p - snd (hd w)
                       else port_x p - fst (hd w)) = 0
                   then IndexError else AmbiguousSeparationError))"
proof -
  have A: "generate_manhattan_bundle_waypoints rfa [p] ports2 wps (Some sep) =
             Inl (if (if orientation p \<in> {0, 180} then port_y p - snd (hd w)
                      else port_x p - fst (hd w)) = 0
                  then IndexError else AmbiguousSeparationError)"
    if "rfa wps = Inr w" "w \<noteq> []" for w
    using that assms
    by (simp add: generate_manhattan_bundle_waypoints_def py_get_def py_get_neg_def
        hd_conv_nth get_ports_x_or_y_distances_def get_list_ports_angle_def
        offsets_mid_of_def Let_def)
  have B: "\<exists>e. generate_manhattan_bundle_waypoints rfa [p] ports2 wps (Some sep) = Inl e"
  proof (cases "rfa wps")
    case (Inl e)
    then show ?thesis by (simp add: generate_manhattan_bundle_waypoints_def)
  next
    case (Inr w)
    show ?thesis
    proof (cases "w = []")
      case True
      then show ?thesis using Inr
        by (simp add: generate_manhattan_bundle_waypoints_def py_get_def)
    next
      case False
      then show ?thesis using A [OF Inr False] by simp
    qed
  qed
  show ?thesis using A B by blast
qed

theorem single_port_with_separation_fails_witness:
  "(5::real) \<noteq> 0
   \<and> generate_manhattan_bundle_waypoints Inr [mk_port 0 (0, 0)] [mk_port 180 (50, 0)]
       [(0, 0), (50, 0)] (Some 5) = Inl IndexError
   \<and> generate_manhattan_bundle_waypoints Inr [mk_port 0 (0, 3)] [mk_port 180 (50, 3)]
       [(0, 0), (50, 0)] (Some 5) = Inl AmbiguousSeparationError"
proof -
  have h: "(5::real) \<noteq> 0" by simp
  note t = single_port_with_separation_fails [OF h]
  have a: "generate_manhattan_bundle_waypoints Inr [mk_port 0 (0, 0)] [mk_port 180 (50, 0)]
       [(0, 0), (50, 0)] (Some 5) = Inl IndexError"
    using t [of Inr "mk_port 0 (0, 0)" "[mk_port 180 (50, 0)]" "[(0, 0), (50, 0)]"]
    by (simp add: mk_port_def port_y_def)
  have b: "generate_manhattan_bundle_waypoints Inr [mk_port 0 (0, 3)] [mk_port 180 (50, 3)]
       [(0, 0), (50, 0)] (Some 5) = Inl AmbiguousSeparationError"
    using t [of Inr "mk_port 0 (0, 3)" "[mk_port 180 (50, 3)]" "[(0, 0), (50, 0)]"]
    by (simp add: mk_port_def port_y_def)
  show ?thesis using h a b by blast
qed

subsection \<open>Both extreme start offsets are zero\<close>

text \<open>
  Claim C9. With a separation that is not zero and at least two ports, when the first and
  the last start offset are both exactly zero, the first branch is taken: no
  \<open>AmbiguousSeparationError\<close> is raised and the mid-path offsets are
  \<open>sign(offsets_start[1]) * separation * index\<close>.
\<close>

theorem both_end_offsets_zero_takes_first_branch:
  assumes "sep \<noteq> 0" and "2 \<le> length os" and "os ! 0 = 0" and "last os = 0"
  shows "offsets_mid_of (Some sep) os =
           Inr (map (\<lambda>i. sgn (os ! 1) * sep * real i) [0..<length os])
       \<and> offsets_mid_of (Some sep) os \<noteq> Inl AmbiguousSeparationError"
  using offsets_mid_first_zero [OF assms(1-3)] by simp

theorem both_end_offsets_zero_takes_first_branch_witness:
  "(5::real) \<noteq> 0 \<and> 2 \<le> length [0, - 2, 0 :: real] \<and> [0, - 2, 0 :: real] ! 0 = 0
   \<and> last [0, - 2, 0 :: real] = 0
   \<and> offsets_mid_of (Some 5) [0, - 2, 0] = Inr [0, - 5, - 10]"
  using both_end_offsets_zero_takes_first_branch [of 5 "[0, - 2, 0]"]
  by (simp add: upt_rec)

subsection \<open>Mid-path offsets from a separation\<close>

text \<open>
  Claim C3 says that the call fails with \<open>AmbiguousSeparationError\<close> unless exactly one of
  the first and the last start offset is zero. With start offsets \<open>[0, 3, 0]\<close> both are
  zero, and the mid-path offsets are computed all the same.
\<close>

theorem separation_both_zero_counterexample:
  "\<not> (([0, 3, 0 :: real] ! 0 = 0) \<noteq> (last [0, 3, 0 :: real] = 0))
   \<and> offsets_mid_of (Some 5) [0, 3, 0] = Inr [0, 5, 10]
   \<and> offsets_mid_of (Some 5) [0, 3, 0] \<noteq> Inl AmbiguousSeparationError"
  by (simp add: offsets_mid_of_def py_get_def upt_rec)

text \<open>
  Claim C3, as amended. With a separation that is not zero and at least two ports: if the
  first start offset is exactly zero, the mid-path offsets are
  \<open>sign(offsets_start[1]) * separation * index\<close>; otherwise, if the last start offset is
  exactly zero, they are \<open>sign(offsets_start[-2]) * separation * (n - 1 - index)\<close>;
  otherwise the call fails with \<open>AmbiguousSeparationError\<close>. For start offsets
  \<open>[0, 3, 7]\<close> and separation 5 the mid-path offsets are \<open>[0, 5, 10]\<close>.
\<close>

theorem mid_offsets_from_separation:
  assumes "sep \<noteq> 0" and "2 \<le> length os"
  shows "(os ! 0 = 0 \<longrightarrow>
            offsets_mid_of (Some sep) os =
              Inr (map (\<lambda>i. sgn (os ! 1) * sep * real i) [0..<length os]))
       \<and> (os ! 0 \<noteq> 0 \<and> last os = 0 \<longrightarrow>
            offsets_mid_of (Some sep) os =
              Inr (map (\<lambda>i. sgn (os ! (length os - 2)) * sep * real (length os - 1 - i))
                     [0..<length os]))
       \<and> (os ! 0 \<noteq> 0 \<and> last os \<noteq> 0 \<longrightarrow>
            offsets_mid_of (Some sep) os = Inl AmbiguousSeparationError)
       \<and> offsets_mid_of (Some 5) [0, 3, 7] = Inr [0, 5, 10]"
proof (intro conjI impI)
  show "offsets_mid_of (Some sep) os =
          Inr (map (\<lambda>i. sgn (os ! 1) * sep * real i) [0..<length os])" if "os ! 0 = 0"
    using offsets_mid_first_zero [OF assms that] .
  show "offsets_mid_of (Some sep) os =
          Inr (map (\<lambda>i. sgn (os ! (length os - 2)) * sep * real (length os - 1 - i))
                 [0..<length os])" if "os ! 0 \<noteq> 0 \<and> last os = 0"
    using offsets_mid_last_zero [OF assms] that by blast
  show "offsets_mid_of (Some sep) os = Inl AmbiguousSeparationError"
    if "os ! 0 \<noteq> 0 \<and> last os \<noteq> 0"
    using offsets_mid_neither_zero [OF assms(1)] assms(2) that by simp
  show "offsets_mid_of (Some 5) [0, 3, 7] = Inr [0, 5, 10]"
    by (simp add: offsets_mid_of_def py_get_def upt_rec)
qed

theorem mid_offsets_from_separation_witness:
  "(5::real) \<noteq> 0 \<and> 2 \<le> length [- 7, - 3, 0 :: real]
   \<and> offsets_mid_of (Some 5) [0, 3, 7] = Inr [0, 5, 10]
   \<and> offsets_mid_of (Some 5) [- 7, - 3, 0] = Inr [- 10, - 5, 0]
   \<and> offsets_mid_of (Some 5) [2, 3, 7] = Inl AmbiguousSeparationError"
  using mid_offsets_from_separation [of 5 "[0, 3, 7]"]
    mid_offsets_from_separation [of 5 "[- 7, - 3, 0]"]
    mid_offsets_from_separation [of 5 "[2, 3, 7]"]
  by (simp add: upt_rec)

subsection \<open>Handedness of the displacement\<close>

text \<open>
  Claim C4 says that every vertical segment is translated by
  \<open>(- sign * a, 0)\<close>. The displacement tests for horizontal first, so a segment that is
  both horizontal and vertical within the tolerance is moved in Y: the segment from
  \<open>(0, 0)\<close> to \<open>(1e-6, 1e-6)\<close> is vertical, its sign is 1, and with offset 1 it is
  translated by \<open>(0, 1)\<close>, not by \<open>(- 1, 0)\<close>.
\<close>

theorem vertical_displacement_counterexample:
  "is_vertical ((0, 0), (1 / 1000000, 1 / 1000000))
   \<and> segment_sign ((0, 0), (1 / 1000000, 1 / 1000000)) = Some 1
   \<and> displace_segment_copy_group1 ((0, 0), (1 / 1000000, 1 / 1000000)) 1 =
       Inr (translate ((0, 0), (1 / 1000000, 1 / 1000000)) (0, 1))
   \<and> displace_segment_copy_group1 ((0, 0), (1 / 1000000, 1 / 1000000)) 1 \<noteq>
       Inr (translate ((0, 0), (1 / 1000000, 1 / 1000000)) (- 1, 0))"
  by (simp add: displace_segment_copy_group1_def displace_segment_copy_def segment_sign_def
      is_horizontal_def is_vertical_def tol_def translate_def)

text \<open>
  Claim C4, as amended. For every segment \<open>s\<close> and offset \<open>a\<close> the kernel's displacement
  \<open>_displace_segment_copy_group1\<close> does the following. If \<open>s\<close> is horizontal within the
  tolerance it is translated by \<open>(0, + sign * a)\<close>, where \<open>sign\<close> is the sign of the X
  extent of \<open>s\<close>, or, when \<open>s\<close> is vertical within the tolerance as well, the sign of its Y
  extent. If \<open>s\<close> is vertical and not horizontal it is translated by \<open>(- sign * a, 0)\<close>,
  where \<open>sign\<close> is the sign of its Y extent. A segment that is neither fails with the
  "Segment should be manhattan" error.
\<close>

theorem displacement_handedness:
  "displace_segment_copy_group1 s a =
     (if is_horizontal s then
        Inr (translate s (0, (if is_vertical s then sgn (snd (snd s) - snd (fst s))
                              else sgn (fst (snd s) - fst (fst s))) * a))
      else if is_vertical s then
        Inr (translate s (- (sgn (snd (snd s) - snd (fst s)) * a), 0))
      else Inl InvalidPathError)"
  by (cases s) (simp add: displace_segment_copy_group1_def displace_segment_copy_def
      segment_sign_def)

theorem displacement_handedness_witness:
  "displace_segment_copy_group1 ((0, 0), (50, 0)) 10 = Inr ((0, 10), (50, 10))
   \<and> displace_segment_copy_group1 ((50, 0), (0, 0)) 10 = Inr ((50, - 10), (0, - 10))
   \<and> displace_segment_copy_group1 ((0, 0), (0, 50)) 10 = Inr ((- 10, 0), (- 10, 50))
   \<and> displace_segment_copy_group1 ((0, 50), (0, 0)) 10 = Inr ((10, 50), (10, 0))
   \<and> displace_segment_copy_group1 ((0, 0), (50, 50)) 10 = Inl InvalidPathError"
  using displacement_handedness [of "((0, 0), (50, 0))" 10]
    displacement_handedness [of "((50, 0), (0, 0))" 10]
    displacement_handedness [of "((0, 0), (0, 50))" 10]
    displacement_handedness [of "((0, 50), (0, 0))" 10]
    displacement_handedness [of "((0, 0), (50, 50))" 10]
  by (simp add: is_horizontal_def is_vertical_def tol_def translate_def)

subsection \<open>Routes start and end on the ports\<close>

text \<open>
  Claim C1. For every route that \<open>_generate_manhattan_bundle_waypoints\<close> returns, the first
  point is the position of the corresponding source port and the last point is the
  position of the corresponding destination port, exactly (and so within any tolerance).
\<close>

theorem route_ends_at_port_positions:
  assumes "generate_manhattan_bundle_waypoints rfa ports1 ports2 wps separation = Inr routes"
    and "i < length routes"
  shows "i < length ports1 \<and> i < length ports2 \<and> routes ! i \<noteq> []
       \<and> hd (routes ! i) = midpoint (ports1 ! i)
       \<and> last (routes ! i) = midpoint (ports2 ! i)"
proof -
  from generate_routes [OF assms(1)] obtain w om where
    len: "length routes = length ports1" and wsne: "zip w (tl w) \<noteq> []" and
    rl: "\<forall>i < length ports1.
           \<exists>r. route_loop (zip w (tl w))
                  (flip_offsets (orientation (hd ports1)) om ! i) ports2 i
                  (orientation (hd ports2)) 0
                  (flip_offsets (orientation (hd ports1))
                     (get_ports_x_or_y_distances ports1 (hd w)) ! i)
                  [] (zip w (tl w)) = Inr r
              \<and> routes ! i = r[0 := midpoint (ports1 ! i)]"
    by blast
  have i1: "i < length ports1" using assms(2) len by simp
  define ws where "ws = zip w (tl w)"
  from rl i1 obtain r where
    r: "route_loop ws
          (flip_offsets (orientation (hd ports1)) om ! i) ports2 i
          (orientation (hd ports2)) 0
          (flip_offsets (orientation (hd ports1))
             (get_ports_x_or_y_distances ports1 (hd w)) ! i)
          [] ws = Inr r" and
    ri: "routes ! i = r[0 := midpoint (ports1 ! i)]"
    unfolding ws_def by blast
  have wsne': "ws \<noteq> []" unfolding ws_def by (rule wsne)
  note res = route_loop_result [OF r wsne']
  have i2: "i < length ports2" by (rule res(1))
  have lr: "length r = Suc (length ws)" by (rule res(2))
  have le: "r ! length ws = midpoint (ports2 ! i)" by (rule res(3))
  have pos: "0 < length ws" using wsne' by simp
  have ne: "routes ! i \<noteq> []" using ri lr by auto
  have h: "hd (routes ! i) = midpoint (ports1 ! i)"
    using ri lr by (cases r) simp_all
  have "last (routes ! i) = (routes ! i) ! (length (routes ! i) - 1)"
    using ne by (rule last_conv_nth)
  also have "\<dots> = r ! length ws"
    using ri lr pos by simp
  finally have l: "last (routes ! i) = midpoint (ports2 ! i)" using le by simp
  show ?thesis using i1 i2 ne h l by blast
qed

theorem route_ends_at_port_positions_witness:
  "generate_manhattan_bundle_waypoints Inr
     [mk_port 0 (0, 0), mk_port 0 (0, 10)] [mk_port 270 (50, 100), mk_port 270 (40, 100)]
     [(0, 0), (50, 0), (50, 100)] None =
     Inr [[(0, 0), (50, 0), (50, 100)], [(0, 10), (40, 10), (40, 100)]]
   \<and> hd ([[(0, 0), (50, 0), (50, 100)], [(0, 10), (40, 10), (40, 100 :: real)]] ! 1) =
       midpoint ([mk_port 0 (0, 0), mk_port 0 (0, 10)] ! 1)
   \<and> last ([[(0, 0), (50, 0), (50, 100)], [(0, 10), (40, 10), (40, 100 :: real)]] ! 1) =
       midpoint ([mk_port 270 (50, 100), mk_port 270 (40, 100)] ! 1)"
proof -
  have g: "generate_manhattan_bundle_waypoints Inr
     [mk_port 0 (0, 0), mk_port 0 (0, 10)] [mk_port 270 (50, 100), mk_port 270 (40, 100)]
     [(0, 0), (50, 0), (50, 100)] None =
     Inr [[(0, 0), (50, 0), (50, 100)], [(0, 10), (40, 10), (40, 100)]]"
    by (simp add: eval_defs)
  have i: "(1::nat) < length [[(0, 0), (50, 0), (50, 100)], [(0, 10), (40, 10), (40, 100 :: real)]]"
    by simp
  from route_ends_at_port_positions [OF g i] show ?thesis using g by simp
qed

subsection \<open>Corners of a route\<close>

lemma intersection_Inr_cases:
  assumes "intersection d tmp = Inr c"
  shows "is_horizontal d \<and> is_vertical tmp \<and> c = (fst (fst tmp), snd (fst d))
       \<or> is_horizontal tmp \<and> is_vertical d \<and> c = (fst (fst d), snd (fst tmp))"
  using assms by (auto simp: intersection_def split: if_splits)

lemma spec_corner_Inr:
  assumes "spec_corner ws os om k = Inr c" and "0 < k"
  shows "\<exists>d tmp. displace_segment_copy_group1 (ws ! k) om = Inr d
           \<and> displace_segment_copy_group1 (ws ! (k - 1)) (if k = 1 then os else om) = Inr tmp
           \<and> intersection d tmp = Inr c"
  using assms by (auto simp: spec_corner_def bindE_eq_Inr)

lemma generate_first_route_fails:
  assumes w: "rfa wps = Inr w" and p1: "ports1 \<noteq> []" and p2: "ports2 \<noteq> []"
    and om: "offsets_mid_of separation (get_ports_x_or_y_distances ports1 (hd w)) = Inr om"
    and ne: "zip w (tl w) \<noteq> []"
    and f: "\<And>om' ea os'. route_loop (zip w (tl w)) om' ports2 0 ea 0 os' [] (zip w (tl w)) = Inl e"
  shows "generate_manhattan_bundle_waypoints rfa ports1 ports2 wps separation = Inl e"
proof -
  have wne: "w \<noteq> []" using ne by auto
  obtain n where n: "length ports1 = Suc n" using p1 by (cases ports1) auto
  have upt: "[0..<length ports1] = 0 # [Suc 0..<length ports1]"
    unfolding n by (simp add: upt_rec)
  have "build_routes (zip w (tl w)) os' om' ports2 ea [0..<length ports1] = Inl e"
    for os' om' ea
    unfolding upt by (simp add: f)
  then show ?thesis
    using generate_unfold [of rfa wps w ports1 ports2 separation] w wne p1 p2 om
    by simp
qed

lemma generate_bad_pair:
  assumes w: "rfa wps = Inr w" and p1: "ports1 \<noteq> []" and p2: "ports2 \<noteq> []"
    and om: "offsets_mid_of separation (get_ports_x_or_y_distances ports1 (hd w)) = Inr om"
    and ws: "ws = zip w (tl w)"
    and man: "\<And>k. k \<le> j \<Longrightarrow> is_horizontal (ws ! k) \<or> is_vertical (ws ! k)"
    and bad: "0 < j" "j < length ws" "\<not> hv_pair (ws ! j) (ws ! (j - 1))"
  shows "generate_manhattan_bundle_waypoints rfa ports1 ports2 wps separation =
           Inl NonManhattanIntersectionError"
proof -
  have "ws \<noteq> []" using bad(2) by auto
  then have ne: "zip w (tl w) \<noteq> []" unfolding ws .
  have "route_loop ws om' ports2 0 ea 0 os' [] ws = Inl NonManhattanIntersectionError"
    for om' os' ea
    by (rule route_loop_fails_on_bad_pair [OF man bad])
  then show ?thesis
    unfolding ws
    by (rule generate_first_route_fails
        [of rfa wps w ports1 ports2 separation om, OF w p1 p2 om ne])
qed

lemma generate_diagonal:
  assumes w: "rfa wps = Inr w" and p1: "ports1 \<noteq> []" and p2: "ports2 \<noteq> []"
    and om: "offsets_mid_of separation (get_ports_x_or_y_distances ports1 (hd w)) = Inr om"
    and ws: "ws = zip w (tl w)"
    and man: "\<And>k. k < j \<Longrightarrow> is_horizontal (ws ! k) \<or> is_vertical (ws ! k)"
    and good: "\<And>k. 0 < k \<Longrightarrow> k < j \<Longrightarrow> hv_pair (ws ! k) (ws ! (k - 1))"
    and j: "j < length ws"
    and diag: "\<not> is_horizontal (ws ! j)" "\<not> is_vertical (ws ! j)"
  shows "generate_manhattan_bundle_waypoints rfa ports1 ports2 wps separation =
           Inl InvalidPathError"
proof -
  have "ws \<noteq> []" using j by auto
  then have ne: "zip w (tl w) \<noteq> []" unfolding ws .
  have "route_loop ws om' ports2 0 ea 0 os' [] ws = Inl InvalidPathError"
    for om' os' ea
    by (rule route_loop_fails_on_diagonal [OF man good j diag])
  then show ?thesis
    unfolding ws
    by (rule generate_first_route_fails
        [of rfa wps w ports1 ports2 separation om, OF w p1 p2 om ne])
qed

text \<open>
  Claim C2 does not hold of the returned routes in two respects. The corner at the last
  segment index is not the intersection itself: the endpoint snap of lines 303--306 moves
  it onto the destination port's coordinate, so with destination ports at \<open>(50, 100)\<close> and
  \<open>(45, 100)\<close> the intersection of the two displaced segments of the second route is
  \<open>(40, 10)\<close> while the corner of the returned route is \<open>(45, 10)\<close>. And a pair that is
  not one horizontal and one vertical segment because one of its segments is neither
  makes the displacement of that segment fail first, with \<open>InvalidPathError\<close> (line 238),
  not with \<open>NonManhattanIntersectionError\<close>.
\<close>

theorem returned_corner_is_snapped_counterexample:
  "generate_manhattan_bundle_waypoints Inr
     [mk_port 0 (0, 0), mk_port 0 (0, 10)] [mk_port 270 (50, 100), mk_port 270 (45, 100)]
     [(0, 0), (50, 0), (50, 100)] None =
     Inr [[(0, 0), (50, 0), (50, 100)], [(0, 10), (45, 10), (45, 100)]]
   \<and> displace_segment_copy_group1 ((50, 0), (50, 100)) 10 = Inr ((40, 0), (40, 100))
   \<and> displace_segment_copy_group1 ((0, 0), (50, 0)) 10 = Inr ((0, 10), (50, 10))
   \<and> intersection ((40, 0), (40, 100)) ((0, 10), (50, 10)) = Inr (40, 10)
   \<and> ([[(0, 0), (50, 0), (50, 100)], [(0, 10), (45, 10), (45, 100)]] :: point list list) ! 1 ! 1
       \<noteq> (40, 10)
   \<and> \<not> hv_pair ((50, 0), (100, 50)) ((0, 0), (50, 0))
   \<and> generate_manhattan_bundle_waypoints Inr
     [mk_port 0 (0, 0)] [mk_port 0 (100, 50)] [(0, 0), (50, 0), (100, 50)] None =
     Inl InvalidPathError
   \<and> Inl InvalidPathError \<noteq> (Inl NonManhattanIntersectionError :: error + point list list)"
proof -
  have 1: "generate_manhattan_bundle_waypoints Inr
     [mk_port 0 (0, 0), mk_port 0 (0, 10)] [mk_port 270 (50, 100), mk_port 270 (45, 100)]
     [(0, 0), (50, 0), (50, 100)] None =
     Inr [[(0, 0), (50, 0), (50, 100)], [(0, 10), (45, 10), (45, 100)]]"
    by (simp add: eval_defs)
  have 2: "displace_segment_copy_group1 ((50, 0), (50, 100)) 10 = Inr ((40, 0), (40, 100))"
    "displace_segment_copy_group1 ((0, 0), (50, 0)) 10 = Inr ((0, 10), (50, 10))"
    "intersection ((40, 0), (40, 100)) ((0, 10), (50, 10)) = Inr (40, 10)"
    by (simp_all add: eval_defs)
  have 3: "([[(0, 0), (50, 0), (50, 100)], [(0, 10), (45, 10), (45, 100)]] :: point list list) ! 1 ! 1
       \<noteq> (40, 10)"
    by simp
  have 4: "\<not> hv_pair ((50, 0), (100, 50)) ((0, 0), (50, 0))"
    by (simp add: hv_pair_def is_horizontal_def is_vertical_def tol_def)
  have 5: "generate_manhattan_bundle_waypoints Inr
     [mk_port 0 (0, 0)] [mk_port 0 (100, 50)] [(0, 0), (50, 0), (100, 50)] None =
     Inl InvalidPathError"
    by (simp add: eval_defs)
  show ?thesis using 1 2 3 4 5 by simp
qed

text \<open>
  Claim C2, as the code has it. For every segment index \<open>j > 0\<close> of the route of port
  \<open>i\<close>, the loop computes the corner as the intersection of segment \<open>j\<close> displaced by the
  mid offset with segment \<open>j - 1\<close> displaced by the previous offset (the start offset when
  \<open>j = 1\<close>, the mid offset afterwards); the horizontal one of the two gives the corner its
  Y coordinate and the vertical one its X coordinate. Below the last segment index this
  intersection is the point of the returned route; at the last index the returned point is
  the intersection with one coordinate replaced by the destination port's (Y for a
  destination orientation of 0 or 180, X otherwise). When the segments up to \<open>j\<close> are each
  horizontal or vertical and segments \<open>j\<close> and \<open>j - 1\<close> are not one of each, the
  computation fails with \<open>NonManhattanIntersectionError\<close>. When segment \<open>j\<close> is neither
  horizontal nor vertical, the segments before it being horizontal or vertical and
  alternating, the computation fails with \<open>InvalidPathError\<close>. The intersection of any two
  segments that are not one horizontal and one vertical is
  \<open>NonManhattanIntersectionError\<close>.
\<close>

theorem corner_is_perpendicular_intersection:
  assumes w: "rfa wps = Inr w"
    and om: "offsets_mid_of separation (get_ports_x_or_y_distances ports1 (hd w)) = Inr om"
    and ws: "ws = zip w (tl w)"
    and os': "os' = flip_offsets (orientation (hd ports1))
                      (get_ports_x_or_y_distances ports1 (hd w))"
    and om': "om' = flip_offsets (orientation (hd ports1)) om"
    and i: "i < length ports1" and j: "0 < j" "j < length ws"
  shows "(generate_manhattan_bundle_waypoints rfa ports1 ports2 wps separation = Inr routes \<longrightarrow>
            (\<exists>d tmp c.
                displace_segment_copy_group1 (ws ! j) (om' ! i) = Inr d
              \<and> displace_segment_copy_group1 (ws ! (j - 1))
                  (if j = 1 then os' ! i else om' ! i) = Inr tmp
              \<and> intersection d tmp = Inr c
              \<and> (is_horizontal d \<and> is_vertical tmp \<and> c = (fst (fst tmp), snd (fst d))
                 \<or> is_horizontal tmp \<and> is_vertical d \<and> c = (fst (fst d), snd (fst tmp)))
              \<and> routes ! i ! j =
                  (if j < length ws - 1 then c
                   else if orientation (hd ports2) = 0 \<or> orientation (hd ports2) = 180
                   then (fst c, snd (midpoint (ports2 ! i)))
                   else (fst (midpoint (ports2 ! i)), snd c))))
       \<and> (ports2 \<noteq> [] \<and> (\<forall>k \<le> j. is_horizontal (ws ! k) \<or> is_vertical (ws ! k))
            \<and> \<not> hv_pair (ws ! j) (ws ! (j - 1)) \<longrightarrow>
            generate_manhattan_bundle_waypoints rfa ports1 ports2 wps separation =
              Inl NonManhattanIntersectionError)
       \<and> (ports2 \<noteq> [] \<and> (\<forall>k < j. is_horizontal (ws ! k) \<or> is_vertical (ws ! k))
            \<and> (\<forall>k. 0 < k \<and> k < j \<longrightarrow> hv_pair (ws ! k) (ws ! (k - 1)))
            \<and> \<not> is_horizontal (ws ! j) \<and> \<not> is_vertical (ws ! j) \<longrightarrow>
            generate_manhattan_bundle_waypoints rfa ports1 ports2 wps separation =
              Inl InvalidPathError)
       \<and> (\<forall>s1 s2. \<not> hv_pair s1 s2 \<longrightarrow> intersection s1 s2 = Inl NonManhattanIntersectionError)"
proof (intro conjI impI allI)
  assume gen: "generate_manhattan_bundle_waypoints rfa ports1 ports2 wps separation = Inr routes"
  from generate_routes [OF gen] obtain w1 om1 where
    w1: "rfa wps = Inr w1" and
    om1: "offsets_mid_of separation (get_ports_x_or_y_distances ports1 (hd w1)) = Inr om1" and
    wsne1: "zip w1 (tl w1) \<noteq> []" and
    rl: "\<forall>i < length ports1.
           \<exists>r. route_loop (zip w1 (tl w1))
                  (flip_offsets (orientation (hd ports1)) om1 ! i) ports2 i
                  (orientation (hd ports2)) 0
                  (flip_offsets (orientation (hd ports1))
                     (get_ports_x_or_y_distances ports1 (hd w1)) ! i)
                  [] (zip w1 (tl w1)) = Inr r
              \<and> routes ! i = r[0 := midpoint (ports1 ! i)]"
    by blast
  have ww: "w1 = w" using w w1 by simp
  have oo: "om1 = om" using om om1 unfolding ww by simp
  from rl i obtain r where
    r: "route_loop ws (om' ! i) ports2 i (orientation (hd ports2)) 0 (os' ! i) [] ws = Inr r" and
    ri: "routes ! i = r[0 := midpoint (ports1 ! i)]"
    unfolding ww oo ws os' om' by blast
  have wsne: "ws \<noteq> []" using j(2) by auto
  from route_loop_result(4) [OF r wsne j(2)] obtain c where
    sc: "spec_corner ws (os' ! i) (om' ! i) j = Inr c" and
    rj: "r ! j = (if j = length ws - 1
                  then snap_pair (orientation (hd ports2)) (midpoint (ports2 ! i)) c else c)"
    by blast
  from spec_corner_Inr [OF sc j(1)] obtain d tmp where
    d: "displace_segment_copy_group1 (ws ! j) (om' ! i) = Inr d" and
    t: "displace_segment_copy_group1 (ws ! (j - 1))
          (if j = 1 then os' ! i else om' ! i) = Inr tmp" and
    x: "intersection d tmp = Inr c"
    by blast
  have "routes ! i ! j = r ! j" using ri j(1) by simp
  with rj j(2) have rr: "routes ! i ! j =
      (if j < length ws - 1 then c
       else if orientation (hd ports2) = 0 \<or> orientation (hd ports2) = 180
       then (fst c, snd (midpoint (ports2 ! i)))
       else (fst (midpoint (ports2 ! i)), snd c))"
    by (auto simp: snap_pair_def)
  show "\<exists>d tmp c.
          displace_segment_copy_group1 (ws ! j) (om' ! i) = Inr d
        \<and> displace_segment_copy_group1 (ws ! (j - 1))
            (if j = 1 then os' ! i else om' ! i) = Inr tmp
        \<and> intersection d tmp = Inr c
        \<and> (is_horizontal d \<and> is_vertical tmp \<and> c = (fst (fst tmp), snd (fst d))
           \<or> is_horizontal tmp \<and> is_vertical d \<and> c = (fst (fst d), snd (fst tmp)))
        \<and> routes ! i ! j =
            (if j < length ws - 1 then c
             else if orientation (hd ports2) = 0 \<or> orientation (hd ports2) = 180
             then (fst c, snd (midpoint (ports2 ! i)))
             else (fst (midpoint (ports2 ! i)), snd c))"
    using d t x intersection_Inr_cases [OF x] rr by blast
next
  assume a: "ports2 \<noteq> [] \<and> (\<forall>k \<le> j. is_horizontal (ws ! k) \<or> is_vertical (ws ! k))
            \<and> \<not> hv_pair (ws ! j) (ws ! (j - 1))"
  have p1: "ports1 \<noteq> []" using i by auto
  have p2: "ports2 \<noteq> []" using a by blast
  have man: "\<And>k. k \<le> j \<Longrightarrow> is_horizontal (ws ! k) \<or> is_vertical (ws ! k)"
    using a by blast
  have bad: "\<not> hv_pair (ws ! j) (ws ! (j - 1))" using a by blast
  show "generate_manhattan_bundle_waypoints rfa ports1 ports2 wps separation =
          Inl NonManhattanIntersectionError"
    by (rule generate_bad_pair [of rfa wps w ports1 ports2 separation om ws j,
          OF w p1 p2 om ws man j(1) j(2) bad])
next
  assume a: "ports2 \<noteq> [] \<and> (\<forall>k < j. is_horizontal (ws ! k) \<or> is_vertical (ws ! k))
            \<and> (\<forall>k. 0 < k \<and> k < j \<longrightarrow> hv_pair (ws ! k) (ws ! (k - 1)))
            \<and> \<not> is_horizontal (ws ! j) \<and> \<not> is_vertical (ws ! j)"
  have p1: "ports1 \<noteq> []" using i by auto
  have p2: "ports2 \<noteq> []" using a by blast
  have man: "\<And>k. k < j \<Longrightarrow> is_horizontal (ws ! k) \<or> is_vertical (ws ! k)"
    using a by blast
  have good: "\<And>k. 0 < k \<Longrightarrow> k < j \<Longrightarrow> hv_pair (ws ! k) (ws ! (k - 1))"
    using a by blast
  have diag: "\<not> is_horizontal (ws ! j)" "\<not> is_vertical (ws ! j)" using a by blast+
  show "generate_manhattan_bundle_waypoints rfa ports1 ports2 wps separation =
          Inl InvalidPathError"
    by (rule generate_diagonal [of rfa wps w ports1 ports2 separation om ws j,
          OF w p1 p2 om ws man good j(2) diag])
next
  fix s1 s2 assume "\<not> hv_pair s1 s2"
  then show "intersection s1 s2 = Inl NonManhattanIntersectionError"
    by (simp add: intersection_hv)
qed

theorem corner_is_perpendicular_intersection_witness:
  "generate_manhattan_bundle_waypoints Inr
     [mk_port 0 (0, 0), mk_port 0 (0, 10)] [mk_port 180 (200, 100), mk_port 180 (200, 113)]
     [(0, 0), (50, 0), (50, 100), (200, 100)] None =
     Inr [[(0, 0), (50, 0), (50, 100), (200, 100)], [(0, 10), (40, 10), (40, 113), (200, 113)]]
   \<and> displace_segment_copy_group1 ((50, 0), (50, 100)) 10 = Inr ((40, 0), (40, 100))
   \<and> displace_segment_copy_group1 ((0, 0), (50, 0)) 10 = Inr ((0, 10), (50, 10))
   \<and> intersection ((40, 0), (40, 100)) ((0, 10), (50, 10)) = Inr (40, 10)
   \<and> is_horizontal ((0, 10), (50, 10)) \<and> is_vertical ((40, 0), (40, 100))
   \<and> displace_segment_copy_group1 ((50, 100), (200, 100)) 10 = Inr ((50, 110), (200, 110))
   \<and> intersection ((50, 110), (200, 110)) ((40, 0), (40, 100)) = Inr (40, 110)
   \<and> ([[(0, 0), (50, 0), (50, 100), (200, 100)],
        [(0, 10), (40, 10), (40, 113), (200, 113)]] :: point list list) ! 1 ! 2 =
       (fst (40 :: real, 110 :: real), snd (midpoint (mk_port 180 (200, 113))))
   \<and> generate_manhattan_bundle_waypoints Inr
     [mk_port 0 (0, 0)] [mk_port 0 (101, 0)]
     [(0, 0), (100, 0), (100 + 2 / 100000, 9 / 1000000)] None =
     Inl NonManhattanIntersectionError
   \<and> generate_manhattan_bundle_waypoints Inr
     [mk_port 0 (0, 0)] [mk_port 0 (100, 50)] [(0, 0), (50, 0), (100, 50)] None =
     Inl InvalidPathError"
proof -
  let ?p1 = "[mk_port 0 (0, 0), mk_port 0 (0, 10)]"
  let ?p2 = "[mk_port 180 (200, 100), mk_port 180 (200, 113)]"
  let ?w = "[(0, 0), (50, 0), (50, 100), (200, 100)] :: point list"
  let ?ws = "[((0, 0), (50, 0)), ((50, 0), (50, 100)), ((50, 100), (200, 100))] :: segment list"
  let ?R = "[[(0, 0), (50, 0), (50, 100), (200, 100)],
             [(0, 10), (40, 10), (40, 113), (200, 113)]] :: point list list"
  let ?q1 = "[mk_port 0 (0, 0)]"
  let ?q2 = "[mk_port 0 (101, 0)]"
  let ?q3 = "[mk_port 0 (100, 50)]"
  let ?v = "[(0, 0), (100, 0), (100 + 2 / 100000, 9 / 1000000)] :: point list"
  let ?vs = "[((0, 0), (100, 0)), ((100, 0), (100 + 2 / 100000, 9 / 1000000))] :: segment list"
  let ?u = "[(0, 0), (50, 0), (100, 50)] :: point list"
  let ?us = "[((0, 0), (50, 0)), ((50, 0), (100, 50))] :: segment list"
  have g: "generate_manhattan_bundle_waypoints Inr ?p1 ?p2 ?w None = Inr ?R"
    by (simp add: eval_defs)
  have om: "offsets_mid_of None (get_ports_x_or_y_distances ?p1 (hd ?w)) = Inr [0, 10]"
    by (simp add: eval_defs)
  have os: "[0, 10] = flip_offsets (orientation (hd ?p1)) (get_ports_x_or_y_distances ?p1 (hd ?w))"
    by (simp add: eval_defs)
  have fm: "[0, 10] = flip_offsets (orientation (hd ?p1)) [0, 10]"
    by (simp add: eval_defs)
  have ws: "?ws = zip ?w (tl ?w)" by simp
  have i: "(1::nat) < length ?p1" by simp
  have j1: "0 < (1::nat)" by simp
  have j2: "(1::nat) < length ?ws" by simp
  have k1: "0 < (2::nat)" by simp
  have k2: "(2::nat) < length ?ws" by simp
  note T = corner_is_perpendicular_intersection
      [of Inr ?w ?w None ?p1 "[0, 10]" ?ws "[0, 10]" "[0, 10]" 1 1 ?p2 ?R,
       OF refl om ws os fm i j1 j2]
  note T2 = corner_is_perpendicular_intersection
      [of Inr ?w ?w None ?p1 "[0, 10]" ?ws "[0, 10]" "[0, 10]" 1 2 ?p2 ?R,
       OF refl om ws os fm i k1 k2]
  from T g obtain d tmp c where
    d: "displace_segment_copy_group1 (?ws ! 1) ([0, 10] ! 1) = Inr d" and
    t: "displace_segment_copy_group1 (?ws ! (1 - 1))
          (if (1::nat) = 1 then [0, 10] ! 1 else [0, 10] ! 1) = Inr tmp" and
    x: "intersection d tmp = Inr c"
    by blast
  have d': "displace_segment_copy_group1 ((50, 0), (50, 100)) 10 = Inr d"
    using d by simp
  have t': "displace_segment_copy_group1 ((0, 0), (50, 0)) 10 = Inr tmp"
    using t by simp
  have dv: "d = ((40, 0), (40, 100))"
    using d' by (simp add: displace_segment_copy_group1_def displace_segment_copy_def
        segment_sign_def is_horizontal_def is_vertical_def tol_def translate_def)
  have tv: "tmp = ((0, 10), (50, 10))"
    using t' by (simp add: displace_segment_copy_group1_def displace_segment_copy_def
        segment_sign_def is_horizontal_def is_vertical_def tol_def translate_def)
  have cv: "intersection ((40, 0), (40, 100)) ((0, 10), (50, 10)) = Inr (40, 10)"
    by (simp add: intersection_def is_horizontal_def is_vertical_def tol_def)
  have h: "is_horizontal ((0, 10), (50, 10))" "is_vertical ((40, 0), (40, 100))"
    by (simp_all add: is_horizontal_def is_vertical_def tol_def)
  from T2 g obtain d2 tmp2 c2 where
    d2: "displace_segment_copy_group1 (?ws ! 2) ([0, 10] ! 1) = Inr d2" and
    t2: "displace_segment_copy_group1 (?ws ! (2 - 1))
          (if (2::nat) = 1 then [0, 10] ! 1 else [0, 10] ! 1) = Inr tmp2" and
    x2: "intersection d2 tmp2 = Inr c2"
    by blast
  have d2': "displace_segment_copy_group1 ((50, 100), (200, 100)) 10 = Inr d2"
    using d2 by simp
  have d2v: "d2 = ((50, 110), (200, 110))"
    using d2' by (simp add: displace_segment_copy_group1_def displace_segment_copy_def
        segment_sign_def is_horizontal_def is_vertical_def tol_def translate_def)
  have c2v: "intersection ((50, 110), (200, 110)) ((40, 0), (40, 100)) = Inr (40, 110)"
    by (simp add: intersection_def is_horizontal_def is_vertical_def tol_def)
  have last: "?R ! 1 ! 2 = (fst (40 :: real, 110 :: real), snd (midpoint (mk_port 180 (200, 113))))"
    by (simp add: mk_port_def)
  have om2: "offsets_mid_of None (get_ports_x_or_y_distances ?q1 (hd ?v)) = Inr [0]"
    by (simp add: eval_defs)
  have os2: "[0] = flip_offsets (orientation (hd ?q1)) (get_ports_x_or_y_distances ?q1 (hd ?v))"
    by (simp add: eval_defs)
  have fm2: "[0] = flip_offsets (orientation (hd ?q1)) [0]"
    by (simp add: eval_defs)
  have vs: "?vs = zip ?v (tl ?v)" by simp
  have i0: "(0::nat) < length ?q1" by simp
  have j3: "(1::nat) < length ?vs" by simp
  note U = corner_is_perpendicular_intersection
      [of Inr ?v ?v None ?q1 "[0]" ?vs "[0]" "[0]" 0 1 ?q2 ?R,
       OF refl om2 vs os2 fm2 i0 j1 j3]
  have man: "\<forall>k \<le> 1. is_horizontal (?vs ! k) \<or> is_vertical (?vs ! k)"
    by (simp add: is_horizontal_def is_vertical_def tol_def le_Suc_eq)
  have bad: "\<not> hv_pair (?vs ! 1) (?vs ! (1 - 1))"
    by (simp add: hv_pair_def is_horizontal_def is_vertical_def tol_def)
  have q2: "?q2 \<noteq> []" by simp
  have b: "generate_manhattan_bundle_waypoints Inr ?q1 ?q2 ?v None =
             Inl NonManhattanIntersectionError"
    using U q2 man bad by blast
  have om3: "offsets_mid_of None (get_ports_x_or_y_distances ?q1 (hd ?u)) = Inr [0]"
    by (simp add: eval_defs)
  have os3: "[0] = flip_offsets (orientation (hd ?q1)) (get_ports_x_or_y_distances ?q1 (hd ?u))"
    by (simp add: eval_defs)
  have us: "?us = zip ?u (tl ?u)" by simp
  have j4: "(1::nat) < length ?us" by simp
  note V = corner_is_perpendicular_intersection
      [of Inr ?u ?u None ?q1 "[0]" ?us "[0]" "[0]" 0 1 ?q3 ?R,
       OF refl om3 us os3 fm2 i0 j1 j4]
  have man3: "\<forall>k < 1. is_horizontal (?us ! k) \<or> is_vertical (?us ! k)"
    by (simp add: is_horizontal_def is_vertical_def tol_def)
  have good3: "\<forall>k. 0 < k \<and> k < 1 \<longrightarrow> hv_pair (?us ! k) (?us ! (k - 1))"
    by simp
  have diag: "\<not> is_horizontal (?us ! 1)" "\<not> is_vertical (?us ! 1)"
    by (simp_all add: is_horizontal_def is_vertical_def tol_def)
  have q3: "?q3 \<noteq> []" by simp
  have e: "generate_manhattan_bundle_waypoints Inr ?q1 ?q3 ?u None = Inl InvalidPathError"
    using V q3 man3 good3 diag by blast
  show ?thesis using g d' t' dv tv cv h d2' d2v c2v last b e by simp
qed

subsection \<open>Number of routes\<close>

lemma mapE_length: "mapE f xs = Inr ys \<Longrightarrow> length ys = length xs"
proof (induction xs arbitrary: ys)
  case Nil
  then show ?case by simp
next
  case (Cons a as)
  then show ?case by (auto simp: bindE_eq_Inr)
qed

lemma pipeline_length:
  assumes "bindE G (\<lambda>routes.
           bindE Xs (\<lambda>x.
           bindE (mapE (\<lambda>p. B) qs1) (\<lambda>bends90.
           bindE (py_get qs1 0) (\<lambda>q10.
           bindE (T x q10) (\<lambda>taper.
           mapE (\<lambda>(pts, bend90). RC pts bend90 taper) (zip routes bends90)))))) = Inr rs"
  shows "\<exists>routes. G = Inr routes \<and> length rs = min (length routes) (length qs1)"
proof -
  from assms obtain routes x bends90 q10 taper where
    g: "G = Inr routes" and
    b: "mapE (\<lambda>p. B) qs1 = Inr bends90" and
    m: "mapE (\<lambda>(pts, bend90). RC pts bend90 taper) (zip routes bends90) = Inr rs"
    unfolding bindE_eq_Inr by blast
  have "length bends90 = length qs1" using b by (rule mapE_length)
  moreover have "length rs = length (zip routes bends90)" using m by (rule mapE_length)
  ultimately show ?thesis using g by simp
qed

lemma get_bundle_mismatch:
  "length ports2 \<noteq> length ports1 \<Longrightarrow>
   get_bundle_from_waypoints c ports1 ports2 wps sp sep = (ports1, ports2, Inl PortCountMismatchError)"
  by (simp add: get_bundle_from_waypoints_def)

lemma get_bundle_Inr:
  assumes "snd (snd (get_bundle_from_waypoints c ports1 ports2 wps sp sep)) = Inr rs"
  shows "length ports2 = length ports1 \<and>
         (\<exists>qs1 qs2 wps' routes.
            length qs1 = length ports1
          \<and> generate_manhattan_bundle_waypoints (remove_flat_angles c) qs1 qs2 wps' sep = Inr routes
          \<and> length rs = min (length routes) (length qs1))"
proof -
  have eq: "length ports2 = length ports1"
    using assms by (auto simp: get_bundle_from_waypoints_def split: if_splits)
  obtain p10 where p10: "py_get (map normalize_angle ports1) 0 = Inr p10"
    using assms eq by (cases "py_get (map normalize_angle ports1) 0")
      (auto simp: get_bundle_from_waypoints_def Let_def)
  obtain p20 where p20: "py_get (map normalize_angle ports2) 0 = Inr p20"
    using assms eq p10 by (cases "py_get (map normalize_angle ports2) 0")
      (auto simp: get_bundle_from_waypoints_def Let_def)
  obtain st where st: "angles_to_sorttypes (orientation p10, orientation p20) = Some st"
    using assms eq p10 p20 by (cases "angles_to_sorttypes (orientation p10, orientation p20)")
      (auto simp: get_bundle_from_waypoints_def Let_def)
  define qs1 where "qs1 = (if sp then sort_key (dict_sorts (fst st)) (map normalize_angle ports1)
                           else map normalize_angle ports1)"
  define qs2 where "qs2 = (if sp then sort_key (dict_sorts (snd st)) (map normalize_angle ports2)
                           else map normalize_angle ports2)"
  have lq: "length qs1 = length ports1" by (simp add: qs1_def)
  have "bindE (generate_manhattan_bundle_waypoints (remove_flat_angles c)
                 qs1 qs2 ([midpoint p10] @ wps @ [midpoint p20]) sep) (\<lambda>routes.
        bindE (cross_section c) (\<lambda>x.
        bindE (mapE (\<lambda>p. bend_factory c) qs1) (\<lambda>bends90.
        bindE (py_get qs1 0) (\<lambda>q10.
        bindE (taper_of c x q10) (\<lambda>taper.
        mapE (\<lambda>(pts, bend90). round_corners c pts bend90 taper)
          (zip routes bends90)))))) = Inr rs"
    using assms eq p10 p20 st
    by (simp add: get_bundle_from_waypoints_def Let_def qs1_def qs2_def)
  from pipeline_length [OF this] lq eq show ?thesis by blast
qed

text \<open>
  Claim C8. When the two bundles differ in length the call fails at once with
  \<open>PortCountMismatchError\<close>: nothing is returned, and no port has been written to or
  reordered. Whenever the call returns a list of routes, the two bundles have the same
  length and there is exactly one route per port pair.
\<close>

theorem bundle_length_contract:
  "(length ports2 \<noteq> length ports1 \<longrightarrow>
      get_bundle_from_waypoints c ports1 ports2 wps sp sep =
        (ports1, ports2, Inl PortCountMismatchError))
   \<and> (snd (snd (get_bundle_from_waypoints c ports1 ports2 wps sp sep)) = Inr rs \<longrightarrow>
        length ports2 = length ports1 \<and> length rs = length ports1)"
proof (intro conjI impI)
  assume "length ports2 \<noteq> length ports1"
  then show "get_bundle_from_waypoints c ports1 ports2 wps sp sep =
        (ports1, ports2, Inl PortCountMismatchError)"
    by (rule get_bundle_mismatch)
next
  assume a: "snd (snd (get_bundle_from_waypoints c ports1 ports2 wps sp sep)) = Inr rs"
  from get_bundle_Inr [OF a] show "length ports2 = length ports1" by blast
  from get_bundle_Inr [OF a] obtain qs1 qs2 wps' routes where
    lq: "length qs1 = length ports1" and
    g: "generate_manhattan_bundle_waypoints (remove_flat_angles c) qs1 qs2 wps' sep = Inr routes" and
    lr: "length rs = min (length routes) (length qs1)"
    by blast
  from generate_routes [OF g] have "length routes = length qs1" by blast
  with lr lq show "length rs = length ports1" by simp
qed

theorem bundle_length_contract_witness:
  "get_bundle_from_waypoints plain_collaborators
     [mk_port 0 (0, 10), mk_port 0 (0, 0)] [mk_port 180 (50, 0)] [] True None =
     ([mk_port 0 (0, 10), mk_port 0 (0, 0)], [mk_port 180 (50, 0)], Inl PortCountMismatchError)
   \<and> snd (snd (get_bundle_from_waypoints plain_collaborators
     [mk_port 0 (0, 0), mk_port 0 (0, 10)] [mk_port 270 (50, 100), mk_port 270 (40, 100)]
     [(50, 0)] True None)) =
     Inr [[(0, 0), (50, 0), (50, 100)], [(0, 10), (40, 10), (40, 100)]]
   \<and> length ([[(0, 0), (50, 0), (50, 100)], [(0, 10), (40, 10), (40, 100)]] :: point list list) =
       length [mk_port 0 (0, 0), mk_port 0 (0, 10)]"
proof -
  let ?a1 = "[mk_port 0 (0, 10), mk_port 0 (0, 0)]"
  let ?a2 = "[mk_port 180 (50, 0)]"
  let ?p1 = "[mk_port 0 (0, 0), mk_port 0 (0, 10)]"
  let ?p2 = "[mk_port 270 (50, 100), mk_port 270 (40, 100)]"
  let ?R = "[[(0, 0), (50, 0), (50, 100)], [(0, 10), (40, 10), (40, 100)]] :: point list list"
  have ne: "length ?a2 \<noteq> length ?a1" by simp
  have g: "generate_manhattan_bundle_waypoints Inr ?p1 ?p2 [(0, 0), (50, 0), (50, 100)] None =
             Inr ?R"
    by (simp add: eval_defs)
  have s1: "sort_key (dict_sorts Y)
              [normalize_angle (mk_port 0 (0, 0)), normalize_angle (mk_port 0 (0, 10))] = ?p1"
    by (simp add: normalize_angle_def py_int_def mk_port_def port_y_def)
  have s2: "sort_key (dict_sorts NegX)
              [normalize_angle (mk_port 270 (50, 100)), normalize_angle (mk_port 270 (40, 100))] = ?p2"
    by (simp add: normalize_angle_def py_int_def mk_port_def port_x_def)
  have m1: "midpoint (normalize_angle (mk_port 0 (0, 0))) = (0, 0)"
       "midpoint (normalize_angle (mk_port 270 (50, 100))) = (50, 100)"
       "orientation (normalize_angle (mk_port 0 (0, 0))) = 0"
       "orientation (normalize_angle (mk_port 270 (50, 100))) = 270"
    by (simp_all add: normalize_angle_def py_int_def mk_port_def)
  have r: "snd (snd (get_bundle_from_waypoints plain_collaborators ?p1 ?p2 [(50, 0)] True None)) =
             Inr ?R"
    unfolding get_bundle_from_waypoints_def
    by (simp add: Let_def py_get_def m1 angles_to_sorttypes_def s1 s2 plain_collaborators_def g
        del: sort_key_simps)
  from bundle_length_contract [of ?a2 ?a1 plain_collaborators "[]" True None ?R] ne
  have a: "get_bundle_from_waypoints plain_collaborators ?a1 ?a2 [] True None =
             (?a1, ?a2, Inl PortCountMismatchError)" by blast
  from bundle_length_contract [of ?p2 ?p1 plain_collaborators "[(50, 0)]" True None ?R] r
  have b: "length ?R = length ?p1" by blast
  show ?thesis using a r b by blast
qed

subsection \<open>What the call does to the caller's ports\<close>

lemma py_int_of_int [simp]: "py_int (of_int k) = k"
  by (simp add: py_int_def)


lemma normalize_angle_fields [simp]:
  "midpoint (normalize_angle p) = midpoint p"
  "width (normalize_angle p) = width p"
  "orientation (normalize_angle p) = of_int (py_int (orientation p) mod 360)"
  by (simp_all add: normalize_angle_def)










subsection \<open>Start offsets and their sign\<close>

text \<open>
  Claim C5. For a non-empty bundle and a reference point, the start offset of each port is
  \<open>port.y - reference.y\<close> when the bundle orientation is 0 or 180 and
  \<open>port.x - reference.x\<close> otherwise. In the kernel the routes are built from the start
  offsets and the mid offsets with all their signs changed when the orientation of the
  first source port is 90 or 270, and from the offsets as they are otherwise.
\<close>

theorem start_offsets_and_flip:
  "(ports \<noteq> [] \<longrightarrow>
      get_ports_x_or_y_distances ports ref =
        (if get_list_ports_angle ports = 0 \<or> get_list_ports_angle ports = 180
         then map (\<lambda>p. port_y p - snd ref) ports
         else map (\<lambda>p. port_x p - fst ref) ports))
   \<and> (rfa wps = Inr w \<and> w \<noteq> [] \<and> ports1 \<noteq> [] \<and> ports2 \<noteq> [] \<longrightarrow>
      generate_manhattan_bundle_waypoints rfa ports1 ports2 wps separation =
        bindE (offsets_mid_of separation (get_ports_x_or_y_distances ports1 (hd w))) (\<lambda>om.
          bindE (build_routes (zip w (tl w))
                   (if orientation (hd ports1) = 90 \<or> orientation (hd ports1) = 270
                    then map uminus (get_ports_x_or_y_distances ports1 (hd w))
                    else get_ports_x_or_y_distances ports1 (hd w))
                   (if orientation (hd ports1) = 90 \<or> orientation (hd ports1) = 270
                    then map uminus om else om)
                   ports2 (orientation (hd ports2)) [0..<length ports1]) (\<lambda>routes.
            set_first_points routes ports1)))"
proof (intro conjI impI)
  assume "ports \<noteq> []"
  then show "get_ports_x_or_y_distances ports ref =
        (if get_list_ports_angle ports = 0 \<or> get_list_ports_angle ports = 180
         then map (\<lambda>p. port_y p - snd ref) ports
         else map (\<lambda>p. port_x p - fst ref) ports)"
    by (simp add: get_ports_x_or_y_distances_def Let_def)
next
  assume a: "rfa wps = Inr w \<and> w \<noteq> [] \<and> ports1 \<noteq> [] \<and> ports2 \<noteq> []"
  have f: "flip_offsets (orientation (hd ports1)) xs =
             (if orientation (hd ports1) = 90 \<or> orientation (hd ports1) = 270
              then map uminus xs else xs)" for xs
    by (simp add: flip_offsets_def)
  show "generate_manhattan_bundle_waypoints rfa ports1 ports2 wps separation =
        bindE (offsets_mid_of separation (get_ports_x_or_y_distances ports1 (hd w))) (\<lambda>om.
          bindE (build_routes (zip w (tl w))
                   (if orientation (hd ports1) = 90 \<or> orientation (hd ports1) = 270
                    then map uminus (get_ports_x_or_y_distances ports1 (hd w))
                    else get_ports_x_or_y_distances ports1 (hd w))
                   (if orientation (hd ports1) = 90 \<or> orientation (hd ports1) = 270
                    then map uminus om else om)
                   ports2 (orientation (hd ports2)) [0..<length ports1]) (\<lambda>routes.
            set_first_points routes ports1))"
    using generate_unfold [of rfa wps w ports1 ports2 separation] a
    unfolding f by simp
qed

theorem start_offsets_and_flip_witness:
  "get_ports_x_or_y_distances [mk_port 180 (0, 3), mk_port 180 (0, 7)] (1, 5) = [- 2, 2]
   \<and> get_ports_x_or_y_distances [mk_port 90 (0, 0), mk_port 90 (10, 0)] (0, 0) = [0, 10]
   \<and> generate_manhattan_bundle_waypoints Inr
       [mk_port 90 (0, 0), mk_port 90 (10, 0)] [mk_port 180 (100, 50), mk_port 180 (100, 40)]
       [(0, 0), (0, 50), (100, 50)] None =
       bindE (build_routes [((0, 0), (0, 50)), ((0, 50), (100, 50))] [0, - 10] [0, - 10]
                [mk_port 180 (100, 50), mk_port 180 (100, 40)] 180 [0, 1])
         (\<lambda>routes. set_first_points routes [mk_port 90 (0, 0), mk_port 90 (10, 0)])
   \<and> generate_manhattan_bundle_waypoints Inr
       [mk_port 90 (0, 0), mk_port 90 (10, 0)] [mk_port 180 (100, 50), mk_port 180 (100, 40)]
       [(0, 0), (0, 50), (100, 50)] None =
       Inr [[(0, 0), (0, 50), (100, 50)], [(10, 0), (10, 40), (100, 40)]]"
proof -
  let ?a = "[mk_port 180 (0, 3), mk_port 180 (0, 7)]"
  let ?p1 = "[mk_port 90 (0, 0), mk_port 90 (10, 0)]"
  let ?p2 = "[mk_port 180 (100, 50), mk_port 180 (100, 40)]"
  let ?w = "[(0, 0), (0, 50), (100, 50)] :: point list"
  have ne: "?a \<noteq> []" "?p1 \<noteq> []" by simp_all
  have h: "Inr ?w = Inr ?w \<and> ?w \<noteq> [] \<and> ?p1 \<noteq> [] \<and> ?p2 \<noteq> []" by simp
  have o: "get_list_ports_angle ?a = 180" "get_list_ports_angle ?p1 = 90"
          "orientation (hd ?p1) = 90" "orientation (hd ?p2) = 180"
    by (simp_all add: get_list_ports_angle_def mk_port_def)
  have xy: "port_y (mk_port 180 (0, 3)) = 3" "port_y (mk_port 180 (0, 7)) = 7"
           "port_x (mk_port 90 (0, 0)) = 0" "port_x (mk_port 90 (10, 0)) = 10"
    by (simp_all add: port_x_def port_y_def mk_port_def)
  from start_offsets_and_flip [of ?a "(1, 5)" Inr ?w ?w ?p1 ?p2 None] ne(1)
  have 1: "get_ports_x_or_y_distances ?a (1, 5) = [- 2, 2]"
    by (simp add: o xy)
  from start_offsets_and_flip [of ?p1 "(0, 0)" Inr ?w ?w ?p1 ?p2 None] ne(2)
  have 2: "get_ports_x_or_y_distances ?p1 (0, 0) = [0, 10]"
    by (simp add: o xy)
  have om: "offsets_mid_of None [0, 10] = Inr [0, 10]"
    by (simp add: offsets_mid_of_def)
  have u: "[0..<length ?p1] = [0, 1]" by (simp add: upt_rec)
  from start_offsets_and_flip [of ?p1 "(0, 0)" Inr ?w ?w ?p1 ?p2 None] h
  have "generate_manhattan_bundle_waypoints Inr ?p1 ?p2 ?w None =
        bindE (offsets_mid_of None (get_ports_x_or_y_distances ?p1 (hd ?w))) (\<lambda>om.
          bindE (build_routes (zip ?w (tl ?w))
                   (if orientation (hd ?p1) = 90 \<or> orientation (hd ?p1) = 270
                    then map uminus (get_ports_x_or_y_distances ?p1 (hd ?w))
                    else get_ports_x_or_y_distances ?p1 (hd ?w))
                   (if orientation (hd ?p1) = 90 \<or> orientation (hd ?p1) = 270
                    then map uminus om else om)
                   ?p2 (orientation (hd ?p2)) [0..<length ?p1]) (\<lambda>routes.
            set_first_points routes ?p1))"
    by blast
  then have 3: "generate_manhattan_bundle_waypoints Inr ?p1 ?p2 ?w None =
       bindE (build_routes [((0, 0), (0, 50)), ((0, 50), (100, 50))] [0, - 10] [0, - 10]
                ?p2 180 [0, 1])
         (\<lambda>routes. set_first_points routes ?p1)"
    unfolding u o by (simp add: 2 om)
  have 4: "generate_manhattan_bundle_waypoints Inr ?p1 ?p2 ?w None =
       Inr [[(0, 0), (0, 50), (100, 50)], [(10, 0), (10, 40), (100, 40)]]"
    by (simp add: eval_defs)
  show ?thesis using 1 2 3 4 by blast
qed

subsection \<open>Bundles that leave to the left or downwards\<close>

text \<open>
  Claim C6 fails on the code. For two source ports facing left (orientation 180), one on
  the reference path and one 10 above it, the second route starts at the port \<open>(0, 10)\<close>
  and its next point is \<open>(-50, -10)\<close>: the first segment is neither horizontal nor
  vertical. The same happens for source ports facing down (orientation 270). The offsets
  are measured as \<open>port - reference\<close> whatever the direction of travel and their sign is
  changed for 90 and 270, whereas the displacement is to the left of the direction of
  travel, so the displaced first segment lies on the wrong side of the reference path for
  orientations 180 and 270, and the closing loop then joins it to the port.
\<close>

theorem leftward_bundle_first_segment_is_diagonal:
  "generate_manhattan_bundle_waypoints Inr
     [mk_port 180 (0, 0), mk_port 180 (0, 10)]
     [mk_port 270 (- 60, 100), mk_port 270 (- 50, 100)]
     [(0, 0), (- 60, 0), (- 60, 100)] None =
     Inr [[(0, 0), (- 60, 0), (- 60, 100)], [(0, 10), (- 50, - 10), (- 50, 100)]]
   \<and> \<not> is_horizontal ((0, 10), (- 50, - 10))
   \<and> \<not> is_vertical ((0, 10), (- 50, - 10))
   \<and> generate_manhattan_bundle_waypoints Inr
     [mk_port 270 (0, 0), mk_port 270 (10, 0)]
     [mk_port 0 (- 100, - 60), mk_port 0 (- 100, - 50)]
     [(0, 0), (0, - 60), (- 100, - 60)] None =
     Inr [[(0, 0), (0, - 60), (- 100, - 60)], [(10, 0), (- 10, - 50), (- 100, - 50)]]
   \<and> \<not> is_horizontal ((10, 0), (- 10, - 50))
   \<and> \<not> is_vertical ((10, 0), (- 10, - 50))"
proof -
  have 1: "generate_manhattan_bundle_waypoints Inr
     [mk_port 180 (0, 0), mk_port 180 (0, 10)]
     [mk_port 270 (- 60, 100), mk_port 270 (- 50, 100)]
     [(0, 0), (- 60, 0), (- 60, 100)] None =
     Inr [[(0, 0), (- 60, 0), (- 60, 100)], [(0, 10), (- 50, - 10), (- 50, 100)]]"
    by (simp add: eval_defs)
  have 2: "generate_manhattan_bundle_waypoints Inr
     [mk_port 270 (0, 0), mk_port 270 (10, 0)]
     [mk_port 0 (- 100, - 60), mk_port 0 (- 100, - 50)]
     [(0, 0), (0, - 60), (- 100, - 60)] None =
     Inr [[(0, 0), (0, - 60), (- 100, - 60)], [(10, 0), (- 10, - 50), (- 100, - 50)]]"
    by (simp add: eval_defs)
  have 3: "\<not> is_horizontal ((0, 10), (- 50, - 10))" "\<not> is_vertical ((0, 10), (- 50, - 10))"
    "\<not> is_horizontal ((10, 0), (- 10, - 50))" "\<not> is_vertical ((10, 0), (- 10, - 50))"
    by (simp_all add: is_horizontal_def is_vertical_def tol_def)
  show ?thesis using 1 2 3 by blast
qed

end
